theory Spec2Isabelle
  imports Main "HOL-Library.Word"
begin

section \<open>The Simit IR node and handle system (ir.h)\<close>

subsection \<open>Failures and addresses\<close>

text \<open>
  A node lives at an address; a raw pointer is an address or the null pointer
  (\<open>None\<close>). Two ways of not returning normally are kept apart: the fatal invariant
  check \<open>iassert\<close>, and behaviour the language leaves undefined (a null or dangling
  pointer is dereferenced, a signed counter overflows).
\<close>

type_synonym addr = nat

datatype failure = IAssertFailure | UndefinedBehaviour

subsection \<open>Collaborator value types\<close>

text \<open>
  Modelled from the spec: \<open>Type\<close> (types.h is not among the sources). The spec
  describes it as a scalar/tensor/set/tuple type descriptor with component structure
  and order; a tensor type has a component type and one size per dimension, its order
  being the number of dimensions. The non-tensor descriptors carry no structure that
  the operations below read.
\<close>

datatype ComponentType = Int_c | Float_c | Boolean_c

datatype Type =
    TensorType (componentType: ComponentType) (dimensions: "nat list")
  | ElementType string
  | SetType string
  | TupleType string nat

fun isTensor :: "Type \<Rightarrow> bool" where
  "isTensor (TensorType c ds) = True"
| "isTensor _ = False"

definition order :: "Type \<Rightarrow> nat" where
  "order t = length (dimensions t)"

text \<open>Modelled from the spec: \<open>Var\<close> (var.h), a name together with a \<open>Type\<close>.\<close>

record Var =
  var_name :: string
  var_type :: Type

subsection \<open>The class hierarchy\<close>

text \<open>
  The concrete expression classes \<open>struct K : public ExprNode<K>\<close> and the concrete
  statement classes \<open>struct K : public StmtNode<K>\<close>, in the order of ir.h.
\<close>

datatype expr_class =
    Literal | VarExpr | Load | FieldRead | Call | Length | IndexRead | TensorIndexRead
  | Neg | Add | Sub | Mul | Div | Not_e | Eq | Ne | Gt | Lt | Ge | Le | And | Or | Xor
  | TupleRead | TensorRead | IndexedTensor | IndexExpr

datatype stmt_class =
    VarDecl | AssignStmt | Store | FieldWrite | CallStmt | Block | IfThenElse | ForRange
  | For | While | Kernel | Print | Comment | Pass | TensorWrite | Map

text \<open>
  Every class a \<open>dynamic_cast\<close> can name: the roots \<open>IRNode\<close>, \<open>ExprNodeBase\<close>,
  \<open>StmtNodeBase\<close>, the template bases \<open>ExprNode<K>\<close> and \<open>StmtNode<K>\<close>, and the
  concrete classes.
\<close>

datatype node_class =
    IRNode_c
  | ExprNodeBase_c
  | StmtNodeBase_c
  | ExprNode_c expr_class
  | StmtNode_c stmt_class
  | Expr_c expr_class
  | Stmt_c stmt_class

text \<open>
  The classes a class derives from, itself included: \<open>K : ExprNode<K> : ExprNodeBase :
  IRNode\<close>, and the same on the statement side.
\<close>

fun ancestors :: "node_class \<Rightarrow> node_class list" where
  "ancestors IRNode_c = [IRNode_c]"
| "ancestors ExprNodeBase_c = [ExprNodeBase_c, IRNode_c]"
| "ancestors StmtNodeBase_c = [StmtNodeBase_c, IRNode_c]"
| "ancestors (ExprNode_c k) = [ExprNode_c k, ExprNodeBase_c, IRNode_c]"
| "ancestors (StmtNode_c k) = [StmtNode_c k, StmtNodeBase_c, IRNode_c]"
| "ancestors (Expr_c k) = [Expr_c k, ExprNode_c k, ExprNodeBase_c, IRNode_c]"
| "ancestors (Stmt_c k) = [Stmt_c k, StmtNode_c k, StmtNodeBase_c, IRNode_c]"

definition derives_from :: "node_class \<Rightarrow> node_class \<Rightarrow> bool" where
  "derives_from c b = (b \<in> set (ancestors c))"

definition concrete :: "node_class \<Rightarrow> bool" where
  "concrete c = (case c of Expr_c k \<Rightarrow> True | Stmt_c k \<Rightarrow> True | _ \<Rightarrow> False)"

subsection \<open>Nodes and the heap\<close>

text \<open>
  \<open>IRNode\<close> and \<open>FuncContent\<close> both carry \<open>mutable long ref = 0\<close>; \<open>long\<close> is taken
  as 64 bits wide and read with \<open>sint\<close>. \<open>ExprNodeBase\<close> adds the field \<open>type\<close>,
  \<open>StmtNodeBase\<close> adds nothing; the dynamic class of the node is recorded beside it.
  Of the fields of the concrete classes the node keeps, in \<open>members\<close>, the raw
  pointers of its handles: the \<open>Expr\<close>, \<open>Stmt\<close> and \<open>Func\<close> members the class declares
  (\<open>Neg::a\<close>; \<open>Add::a, b\<close>; \<open>Block::first, rest\<close>; \<open>Call::func\<close> and the elements of
  \<open>Call::actuals\<close>; and so on) and the handles inside its other members (\<open>Var\<close>,
  \<open>IndexSet\<close>, \<open>ForDomain\<close>, whose classes ir.h includes), in the order in which the
  destructor of the node destroys them. The other fields are not read by the
  operations below.
\<close>

record refcounted =
  ref :: "64 word"

datatype node_variant =
    ExprNodeBase (type: Type) (expr_cls: expr_class)
  | StmtNodeBase (stmt_cls: stmt_class)

record IRNode = refcounted +
  variant :: node_variant
  members :: "addr option list"

type_synonym heap = "addr \<rightharpoonup> IRNode"

definition empty_heap :: heap where
  "empty_heap = Map.empty"

fun dynamic_class :: "node_variant \<Rightarrow> node_class" where
  "dynamic_class (ExprNodeBase t k) = Expr_c k"
| "dynamic_class (StmtNodeBase k) = Stmt_c k"

subsection \<open>Handles\<close>

text \<open>
  Modelled from the spec: \<open>util::IntrusivePtr\<close> (intrusive_ptr.h is not among the
  sources). A handle holds the raw pointer \<open>ptr\<close>; it is undefined when it holds no
  node. \<open>Expr\<close>, \<open>Stmt\<close> (through \<open>IRHandle\<close>) and \<open>Func\<close> are such handles; the type
  parameter only records what the handle points to.
\<close>

datatype 'n IntrusivePtr = IntrusivePtr (ptr: "addr option")

type_synonym Expr = "expr_class IntrusivePtr"
type_synonym Stmt = "stmt_class IntrusivePtr"

definition defined :: "'n IntrusivePtr \<Rightarrow> bool" where
  "defined h = (ptr h \<noteq> None)"

definition undefined_Expr :: Expr where
  "undefined_Expr = IntrusivePtr None"

definition undefined_Stmt :: Stmt where
  "undefined_Stmt = IntrusivePtr None"

text \<open>
  \<open>dynamic_cast<const E*>(p)\<close>: the null pointer casts to the null pointer; a pointer
  to a live node casts to itself when the node's class is \<open>E\<close> or derives from it, and
  to the null pointer otherwise. Reading the class of a node that is gone is undefined.
\<close>

definition dynamic_cast :: "node_class \<Rightarrow> heap \<Rightarrow> addr option \<Rightarrow> failure + addr option" where
  "dynamic_cast E h p =
     (case p of
        None \<Rightarrow> Inr None
      | Some a \<Rightarrow>
          (case h a of
             None \<Rightarrow> Inl UndefinedBehaviour
           | Some n \<Rightarrow> Inr (if derives_from (dynamic_class (variant n)) E then Some a else None)))"

text \<open>
  \<open>Type type() const {return static_cast<const ExprNodeBase*>(ptr)->type;}\<close>:
  the pointer is dereferenced as it is.
\<close>

definition Expr_type :: "heap \<Rightarrow> Expr \<Rightarrow> failure + Type" where
  "Expr_type h e =
     (case ptr e of
        None \<Rightarrow> Inl UndefinedBehaviour
      | Some a \<Rightarrow>
          (case h a of
             None \<Rightarrow> Inl UndefinedBehaviour
           | Some n \<Rightarrow>
               (case variant n of
                  ExprNodeBase t k \<Rightarrow> Inr t
                | StmtNodeBase k \<Rightarrow> Inl UndefinedBehaviour)))"

text \<open>
  \<open>isa<E>(Expr e)\<close>: \<open>e.defined() && dynamic_cast<const E*>(e.ptr) != nullptr\<close>;
  the conjunction does not evaluate the cast of an undefined handle.
\<close>

definition isa_Expr :: "node_class \<Rightarrow> heap \<Rightarrow> Expr \<Rightarrow> failure + bool" where
  "isa_Expr E h e =
     (if defined e
      then (case dynamic_cast E h (ptr e) of Inl f \<Rightarrow> Inl f | Inr q \<Rightarrow> Inr (q \<noteq> None))
      else Inr False)"

text \<open>\<open>to<E>(Expr e)\<close>: \<open>iassert(isa<E>(e))\<close>, then \<open>static_cast<const E*>(e.ptr)\<close>.\<close>

definition to_Expr :: "node_class \<Rightarrow> heap \<Rightarrow> Expr \<Rightarrow> failure + addr option" where
  "to_Expr E h e =
     (case isa_Expr E h e of
        Inl f \<Rightarrow> Inl f
      | Inr b \<Rightarrow> if b then Inr (ptr e) else Inl IAssertFailure)"

text \<open>The same two templates on \<open>Stmt\<close>.\<close>

definition isa_Stmt :: "node_class \<Rightarrow> heap \<Rightarrow> Stmt \<Rightarrow> failure + bool" where
  "isa_Stmt S h s =
     (if defined s
      then (case dynamic_cast S h (ptr s) of Inl f \<Rightarrow> Inl f | Inr q \<Rightarrow> Inr (q \<noteq> None))
      else Inr False)"

definition to_Stmt :: "node_class \<Rightarrow> heap \<Rightarrow> Stmt \<Rightarrow> failure + addr option" where
  "to_Stmt S h s =
     (case isa_Stmt S h s of
        Inl f \<Rightarrow> Inl f
      | Inr b \<Rightarrow> if b then Inr (ptr s) else Inl IAssertFailure)"

subsection \<open>Reference counting\<close>

text \<open>
  \<open>friend void aquire(const IRNode *node) {++node->ref;}\<close>; \<open>FuncContent\<close> repeats it
  on its own \<open>ref\<close>, so one definition over any record that extends \<open>refcounted\<close>
  serves the two. The argument is dereferenced unchecked; stepping a \<open>long\<close> past the
  end of its range is undefined.
\<close>

definition aquire ::
  "(addr \<rightharpoonup> 'm refcounted_scheme) \<Rightarrow> addr \<Rightarrow> failure + (addr \<rightharpoonup> 'm refcounted_scheme)" where
  "aquire h a =
     (case h a of
        None \<Rightarrow> Inl UndefinedBehaviour
      | Some n \<Rightarrow>
          if sint (ref n) = 2 ^ 63 - 1 then Inl UndefinedBehaviour
          else Inr (h(a \<mapsto> n\<lparr>ref := ref n + 1\<rparr>)))"

text \<open>
  \<open>friend void release(const IRNode *node) {if (--node->ref == 0) delete node;}\<close>, and
  the same on \<open>FuncContent\<close>. \<open>delete node\<close> runs the destructor of the object (virtual
  on \<open>IRNode\<close>), which destroys the handle members of the object; the destructor of a
  handle that holds a node releases that node in turn, and so may delete it as well.
  \<open>mem n\<close> lists the raw pointers of the handle members of the object \<open>n\<close> in the order
  in which they are destroyed.

  The nested calls are kept as a list of the handle destructors still to run: the
  destructor at the head runs first, and the members of an object that is deleted
  are put in front of the rest, which is the order of the nested calls. An object is
  taken off the heap when its deletion begins. The destructor of an undefined handle
  does nothing. A chain of deletions that never ends never returns (\<open>None\<close>).
\<close>

partial_function (option) release_all ::
  "('m refcounted_scheme \<Rightarrow> addr option list) \<Rightarrow> (addr \<rightharpoonup> 'm refcounted_scheme)
     \<Rightarrow> addr option list \<Rightarrow> (failure + (addr \<rightharpoonup> 'm refcounted_scheme)) option" where
  "release_all mem h ps =
     (case ps of
        [] \<Rightarrow> Some (Inr h)
      | p # qs \<Rightarrow>
          (case p of
             None \<Rightarrow> release_all mem h qs
           | Some a \<Rightarrow>
               (case h a of
                  None \<Rightarrow> Some (Inl UndefinedBehaviour)
                | Some n \<Rightarrow>
                    if sint (ref n) = - (2 ^ 63) then Some (Inl UndefinedBehaviour)
                    else if ref n - 1 = 0 then release_all mem (h(a := None)) (mem n @ qs)
                    else release_all mem (h(a \<mapsto> n\<lparr>ref := ref n - 1\<rparr>)) qs)))"

definition release ::
  "('m refcounted_scheme \<Rightarrow> addr option list) \<Rightarrow> (addr \<rightharpoonup> 'm refcounted_scheme) \<Rightarrow> addr
     \<Rightarrow> (failure + (addr \<rightharpoonup> 'm refcounted_scheme)) option" where
  "release mem h a = release_all mem h [Some a]"

text \<open>
  Modelled from the spec: the constructors and the destructor of \<open>util::IntrusivePtr\<close>
  (intrusive_ptr.h is not among the sources). The spec: a handle may hold no node;
  acquiring a handle increments the shared count, releasing decrements it, and the
  node is destroyed when the count reaches zero. The world is the heap together with
  the raw pointers of the handles that are alive outside the heap (the handle members
  of the objects on the heap are found through \<open>mem\<close>). \<open>Fresh\<close> is the default
  constructor, \<open>Wrap p\<close> the constructor from a raw pointer, \<open>Copy i\<close> the copy
  constructor applied to the \<open>i\<close>-th live handle, \<open>Drop i\<close> the destructor of the
  \<open>i\<close>-th live handle. Naming a handle that is not alive is undefined.
\<close>

record 'n world =
  nodes :: "addr \<rightharpoonup> 'n"
  handles :: "addr option list"

datatype handle_op = Fresh | Wrap "addr option" | Copy nat | Drop nat

definition attach ::
  "'m refcounted_scheme world \<Rightarrow> addr option \<Rightarrow> failure + 'm refcounted_scheme world" where
  "attach w p =
     (case p of
        None \<Rightarrow> Inr (w\<lparr>handles := handles w @ [None]\<rparr>)
      | Some a \<Rightarrow>
          (case aquire (nodes w) a of
             Inl f \<Rightarrow> Inl f
           | Inr h \<Rightarrow> Inr (w\<lparr>nodes := h, handles := handles w @ [Some a]\<rparr>)))"

definition detach ::
  "('m refcounted_scheme \<Rightarrow> addr option list) \<Rightarrow> 'm refcounted_scheme world \<Rightarrow> nat
     \<Rightarrow> (failure + 'm refcounted_scheme world) option" where
  "detach mem w i =
     (if i < length (handles w) then
        (case handles w ! i of
           None \<Rightarrow> Some (Inr (w\<lparr>handles := take i (handles w) @ drop (Suc i) (handles w)\<rparr>))
         | Some a \<Rightarrow>
             (case release mem (nodes w) a of
                None \<Rightarrow> None
              | Some (Inl f) \<Rightarrow> Some (Inl f)
              | Some (Inr h) \<Rightarrow>
                  Some (Inr (w\<lparr>nodes := h,
                               handles := take i (handles w) @ drop (Suc i) (handles w)\<rparr>))))
      else Some (Inl UndefinedBehaviour))"

fun handle_step ::
  "('m refcounted_scheme \<Rightarrow> addr option list) \<Rightarrow> handle_op \<Rightarrow> 'm refcounted_scheme world
     \<Rightarrow> (failure + 'm refcounted_scheme world) option" where
  "handle_step mem Fresh w = Some (attach w None)"
| "handle_step mem (Wrap p) w = Some (attach w p)"
| "handle_step mem (Copy i) w =
     (if i < length (handles w) then Some (attach w (handles w ! i))
      else Some (Inl UndefinedBehaviour))"
| "handle_step mem (Drop i) w = detach mem w i"

fun handle_run ::
  "('m refcounted_scheme \<Rightarrow> addr option list) \<Rightarrow> handle_op list \<Rightarrow> 'm refcounted_scheme world
     \<Rightarrow> (failure + 'm refcounted_scheme world) option" where
  "handle_run mem [] w = Some (Inr w)"
| "handle_run mem (x # xs) w =
     (case handle_step mem x w of
        None \<Rightarrow> None
      | Some (Inl f) \<Rightarrow> Some (Inl f)
      | Some (Inr w') \<Rightarrow> handle_run mem xs w')"

text \<open>
  The handles that reference the object at \<open>a\<close>: the handle members of the objects
  on the heap, and with them the live handles outside the heap.
\<close>

definition member_refs ::
  "('n \<Rightarrow> addr option list) \<Rightarrow> (addr \<rightharpoonup> 'n) \<Rightarrow> addr \<Rightarrow> nat" where
  "member_refs mem h a = (\<Sum>b \<in> dom h. count_list (mem (the (h b))) (Some a))"

definition referencing :: "('n \<Rightarrow> addr option list) \<Rightarrow> 'n world \<Rightarrow> addr \<Rightarrow> nat" where
  "referencing mem w a = count_list (handles w) (Some a) + member_refs mem (nodes w) a"

text \<open>
  The same count while handle destructors are pending: the handles \<open>ps\<close> whose
  destructors have yet to run still reference their objects.
\<close>

definition balanced ::
  "('m refcounted_scheme \<Rightarrow> addr option list) \<Rightarrow> (addr \<rightharpoonup> 'm refcounted_scheme)
     \<Rightarrow> addr option list \<Rightarrow> addr option list \<Rightarrow> bool" where
  "balanced mem h ps hs =
     (\<forall>a. (h a = None \<longrightarrow>
             count_list hs (Some a) + count_list ps (Some a) + member_refs mem h a = 0)
        \<and> (\<forall>n. h a = Some n \<longrightarrow>
             sint (ref n)
               = int (count_list hs (Some a) + count_list ps (Some a) + member_refs mem h a)))"

text \<open>
  The counting invariant: the heap is finite, an object that is alive counts exactly
  the handles that reference it, and no handle references an object that is gone.
\<close>

definition counted ::
  "('m refcounted_scheme \<Rightarrow> addr option list) \<Rightarrow> 'm refcounted_scheme world \<Rightarrow> bool" where
  "counted mem w =
     (finite (dom (nodes w))
      \<and> (\<forall>a. (nodes w a = None \<longrightarrow> referencing mem w a = 0)
           \<and> (\<forall>n. nodes w a = Some n \<longrightarrow> sint (ref n) = int (referencing mem w a))))"

text \<open>
  What a run of destructors may do to a heap: it creates no object; an object that
  stays is the same apart from its count, which is untouched or has gone down and is
  still positive; an object that goes had a positive count.
\<close>

definition settles ::
  "(addr \<rightharpoonup> 'm refcounted_scheme) \<Rightarrow> (addr \<rightharpoonup> 'm refcounted_scheme) \<Rightarrow> bool" where
  "settles h h' =
     ((\<forall>b. h b = None \<longrightarrow> h' b = None)
      \<and> (\<forall>b n'. h' b = Some n' \<longrightarrow>
            (\<exists>n. h b = Some n \<and> refcounted.more n' = refcounted.more n
               \<and> (n' = n \<or> (0 < sint (ref n') \<and> sint (ref n') < sint (ref n)))))
      \<and> (\<forall>b n. h b = Some n \<and> h' b = None \<longrightarrow> 0 < sint (ref n)))"

subsection \<open>Func\<close>

text \<open>
  \<open>enum Kind { Internal, External, Intrinsic }\<close> of \<open>Func\<close>. The enumeration has no
  fixed underlying type, so its values are those of two bits: the three enumerators
  and the value 3, which no enumerator names.
\<close>

datatype Kind = Internal | External | Intrinsic | Unnamed_3

text \<open>\<open>struct Environment\<close>: \<open>std::map<ir::Var, ir::Expr> globals\<close>.\<close>

record Environment =
  globals :: "Var \<rightharpoonup> Expr"

text \<open>
  \<open>struct FuncContent\<close>. \<open>Storage\<close> (storage.h) is not among the sources and is a type
  parameter. The field \<open>ref\<close> comes from \<open>refcounted\<close>.
\<close>

record 'sto FuncContent = refcounted +
  kind :: int
  name :: string
  arguments :: "Var list"
  results :: "Var list"
  env :: Environment
  body :: Stmt
  storage :: 'sto

type_synonym 'sto Func = "'sto FuncContent IntrusivePtr"
type_synonym 'sto func_heap = "addr \<rightharpoonup> 'sto FuncContent"

text \<open>
  \<open>static_cast<Kind>(ptr->kind)\<close>: the enumerators are numbered from 0; an integer
  outside the values of the enumeration is undefined to convert.
\<close>

definition static_cast_Kind :: "int \<Rightarrow> failure + Kind" where
  "static_cast_Kind i =
     (if i = 0 then Inr Internal
      else if i = 1 then Inr External
      else if i = 2 then Inr Intrinsic
      else if i = 3 then Inr Unnamed_3
      else Inl UndefinedBehaviour)"

definition Kind_to_int :: "Kind \<Rightarrow> int" where
  "Kind_to_int k = (case k of Internal \<Rightarrow> 0 | External \<Rightarrow> 1 | Intrinsic \<Rightarrow> 2 | Unnamed_3 \<Rightarrow> 3)"

text \<open>\<open>ptr-><field>\<close> on a \<open>Func\<close>: no check precedes the dereference.\<close>

definition deref :: "'sto func_heap \<Rightarrow> 'sto Func \<Rightarrow> failure + 'sto FuncContent" where
  "deref fh f =
     (case ptr f of
        None \<Rightarrow> Inl UndefinedBehaviour
      | Some a \<Rightarrow> (case fh a of None \<Rightarrow> Inl UndefinedBehaviour | Some c \<Rightarrow> Inr c))"

definition getName :: "'sto func_heap \<Rightarrow> 'sto Func \<Rightarrow> failure + string" where
  "getName fh f = (case deref fh f of Inl e \<Rightarrow> Inl e | Inr c \<Rightarrow> Inr (name c))"

definition getArguments :: "'sto func_heap \<Rightarrow> 'sto Func \<Rightarrow> failure + Var list" where
  "getArguments fh f = (case deref fh f of Inl e \<Rightarrow> Inl e | Inr c \<Rightarrow> Inr (arguments c))"

definition getResults :: "'sto func_heap \<Rightarrow> 'sto Func \<Rightarrow> failure + Var list" where
  "getResults fh f = (case deref fh f of Inl e \<Rightarrow> Inl e | Inr c \<Rightarrow> Inr (results c))"

definition getBody :: "'sto func_heap \<Rightarrow> 'sto Func \<Rightarrow> failure + Stmt" where
  "getBody fh f = (case deref fh f of Inl e \<Rightarrow> Inl e | Inr c \<Rightarrow> Inr (body c))"

definition getKind :: "'sto func_heap \<Rightarrow> 'sto Func \<Rightarrow> failure + Kind" where
  "getKind fh f = (case deref fh f of Inl e \<Rightarrow> Inl e | Inr c \<Rightarrow> static_cast_Kind (kind c))"

definition getEnvironment :: "'sto func_heap \<Rightarrow> 'sto Func \<Rightarrow> failure + Environment" where
  "getEnvironment fh f = (case deref fh f of Inl e \<Rightarrow> Inl e | Inr c \<Rightarrow> Inr (env c))"

definition getStorage :: "'sto func_heap \<Rightarrow> 'sto Func \<Rightarrow> failure + 'sto" where
  "getStorage fh f = (case deref fh f of Inl e \<Rightarrow> Inl e | Inr c \<Rightarrow> Inr (storage c))"

text \<open>\<open>void setEnvironment(const Environment &env) {ptr->env = env;}\<close>\<close>

definition setEnvironment ::
  "'sto func_heap \<Rightarrow> 'sto Func \<Rightarrow> Environment \<Rightarrow> failure + 'sto func_heap" where
  "setEnvironment fh f e =
     (case ptr f of
        None \<Rightarrow> Inl UndefinedBehaviour
      | Some a \<Rightarrow>
          (case fh a of
             None \<Rightarrow> Inl UndefinedBehaviour
           | Some c \<Rightarrow> Inr (fh(a \<mapsto> c\<lparr>env := e\<rparr>))))"

text \<open>\<open>void setStorage(const Storage &storage) {ptr->storage = storage;}\<close>\<close>

definition setStorage ::
  "'sto func_heap \<Rightarrow> 'sto Func \<Rightarrow> 'sto \<Rightarrow> failure + 'sto func_heap" where
  "setStorage fh f s =
     (case ptr f of
        None \<Rightarrow> Inl UndefinedBehaviour
      | Some a \<Rightarrow>
          (case fh a of
             None \<Rightarrow> Inl UndefinedBehaviour
           | Some c \<Rightarrow> Inr (fh(a \<mapsto> c\<lparr>storage := s\<rparr>))))"

text \<open>
  The operations of \<open>Func\<close> that write: the two setters, and a write through the
  reference that the non-const \<open>getEnvironment()\<close> or \<open>getStorage()\<close> returns, which
  replaces the field by a function of its old value.
\<close>

datatype 'sto func_op =
    SetEnvironment "'sto Func" Environment
  | SetStorage "'sto Func" 'sto
  | WriteEnvironment "'sto Func" "Environment \<Rightarrow> Environment"
  | WriteStorage "'sto Func" "'sto \<Rightarrow> 'sto"

fun func_step :: "'sto func_op \<Rightarrow> 'sto func_heap \<Rightarrow> failure + 'sto func_heap" where
  "func_step (SetEnvironment f e) fh = setEnvironment fh f e"
| "func_step (SetStorage f s) fh = setStorage fh f s"
| "func_step (WriteEnvironment f u) fh =
     (case getEnvironment fh f of Inl x \<Rightarrow> Inl x | Inr e \<Rightarrow> setEnvironment fh f (u e))"
| "func_step (WriteStorage f u) fh =
     (case getStorage fh f of Inl x \<Rightarrow> Inl x | Inr s \<Rightarrow> setStorage fh f (u s))"

fun func_run :: "'sto func_op list \<Rightarrow> 'sto func_heap \<Rightarrow> failure + 'sto func_heap" where
  "func_run [] fh = Inr fh"
| "func_run (x # xs) fh =
     (case func_step x fh of Inl e \<Rightarrow> Inl e | Inr fh' \<Rightarrow> func_run xs fh')"

text \<open>
  Two heaps of function contents show the same prototype when every \<open>Func\<close> answers
  \<open>getName\<close>, \<open>getArguments\<close>, \<open>getResults\<close>, \<open>getBody\<close> and \<open>getKind\<close> alike on
  both.
\<close>

definition same_prototype :: "'sto func_heap \<Rightarrow> 'sto func_heap \<Rightarrow> bool" where
  "same_prototype fh fh' =
     (\<forall>g. getName fh' g = getName fh g
        \<and> getArguments fh' g = getArguments fh g
        \<and> getResults fh' g = getResults fh g
        \<and> getBody fh' g = getBody fh g
        \<and> getKind fh' g = getKind fh g)"

subsection \<open>ForDomain\<close>

text \<open>
  \<open>struct ForDomain\<close> with its \<open>enum Kind\<close>. The class \<open>IndexSet\<close> is not among the
  sources and is a type parameter; the constructors that leave a field out
  default-construct it, and take the default-constructed \<open>IndexSet\<close> and \<open>Var\<close> as
  \<open>di\<close> and \<open>dv\<close>. The field names \<open>kind\<close>, \<open>set\<close> and \<open>var\<close> are suffixed.
\<close>

datatype ForDomain_Kind = IndexSet | Endpoints | Edges | Neighbors | NeighborsOf | Diagonal

record 'iset ForDomain =
  kind_d :: ForDomain_Kind
  indexSet :: 'iset
  set_d :: Expr
  var_d :: Var

text \<open>\<open>ForDomain(class IndexSet indexSet) : kind(IndexSet), indexSet(indexSet) {}\<close>\<close>

definition ForDomain_of_indexSet :: "Var \<Rightarrow> 'iset \<Rightarrow> 'iset ForDomain" where
  "ForDomain_of_indexSet dv ix =
     \<lparr>kind_d = IndexSet, indexSet = ix, set_d = undefined_Expr, var_d = dv\<rparr>"

text \<open>\<open>ForDomain(Expr set, Var var, Kind kind)\<close> with \<open>iassert(kind != IndexSet)\<close>.\<close>

definition ForDomain_of_set ::
  "'iset \<Rightarrow> Expr \<Rightarrow> Var \<Rightarrow> ForDomain_Kind \<Rightarrow> failure + 'iset ForDomain" where
  "ForDomain_of_set di s v k =
     (if k \<noteq> IndexSet
      then Inr \<lparr>kind_d = k, indexSet = di, set_d = s, var_d = v\<rparr>
      else Inl IAssertFailure)"

text \<open>
  \<open>ForDomain(Expr set, Var var, Kind kind, class IndexSet indexSet)\<close> with
  \<open>iassert(kind == NeighborsOf)\<close>.
\<close>

definition ForDomain_of_set_indexSet ::
  "Expr \<Rightarrow> Var \<Rightarrow> ForDomain_Kind \<Rightarrow> 'iset \<Rightarrow> failure + 'iset ForDomain" where
  "ForDomain_of_set_indexSet s v k ix =
     (if k = NeighborsOf
      then Inr \<lparr>kind_d = k, indexSet = ix, set_d = s, var_d = v\<rparr>
      else Inl IAssertFailure)"

section \<open>Operations whose bodies are outside ir.h\<close>

subsection \<open>Tensor reads and writes\<close>

text \<open>\<open>enum class CompoundOperator { None, Add }\<close>, the enumerators prefixed.\<close>

datatype CompoundOperator = CompoundOperator_None | CompoundOperator_Add

record TensorRead_fields =
  tensor :: Expr
  indices :: "Expr list"

record TensorWrite_fields = TensorRead_fields +
  val :: Expr
  cop :: CompoundOperator

text \<open>
  Modelled from the spec: \<open>TensorRead::make\<close>, whose body (ir.cpp) is not among the
  sources. The spec, as the comment on the declaration: the read accepts either exactly
  one (pre-flattened) index or exactly n indices, where n is the tensor's order; any
  other arity is an invariant violation. The spec speaks of a tensor operand only; the
  model rejects an operand whose type is no tensor type, and reads the operand's type
  as \<open>Expr::type()\<close> does. The type of the node made is not part of the model.
\<close>

definition TensorRead_make :: "heap \<Rightarrow> Expr \<Rightarrow> Expr list \<Rightarrow> failure + TensorRead_fields" where
  "TensorRead_make h t ixs =
     (case Expr_type h t of
        Inl f \<Rightarrow> Inl f
      | Inr ty \<Rightarrow>
          if isTensor ty \<and> (length ixs = 1 \<or> length ixs = order ty)
          then Inr \<lparr>tensor = t, indices = ixs\<rparr>
          else Inl IAssertFailure)"

text \<open>
  Modelled from the spec: \<open>TensorWrite::make\<close> (ir.cpp), for which the spec gives the
  same arity rule as for \<open>TensorRead\<close>.
\<close>

definition TensorWrite_make ::
  "heap \<Rightarrow> Expr \<Rightarrow> Expr list \<Rightarrow> Expr \<Rightarrow> CompoundOperator \<Rightarrow> failure + TensorWrite_fields" where
  "TensorWrite_make h t ixs v c =
     (case Expr_type h t of
        Inl f \<Rightarrow> Inl f
      | Inr ty \<Rightarrow>
          if isTensor ty \<and> (length ixs = 1 \<or> length ixs = order ty)
          then Inr \<lparr>tensor = t, indices = ixs, val = v, cop = c\<rparr>
          else Inl IAssertFailure)"

subsection \<open>The type of an index expression\<close>

text \<open>
  Modelled from the spec: \<open>IndexVar\<close> (indexvar.h is not among the sources), a named
  dimension together with the size of the index set it ranges over.
\<close>

record IndexVar =
  iv_name :: string
  iv_size :: nat

text \<open>
  Modelled from the spec: the value of an \<open>IndexExpr\<close>, built from \<open>IndexedTensor\<close>
  leaves combined with arithmetic. As every expression node does, each node stores its
  \<open>Type\<close>; a leaf also holds the index variables the tensor is read through.
\<close>

datatype arith1 = Neg_op
datatype arith2 = Add_op | Sub_op | Mul_op | Div_op

datatype value_expr =
    IndexedTensor_v Type "IndexVar list"
  | Unary_v Type arith1 value_expr
  | Binary_v Type arith2 value_expr value_expr

fun type_v :: "value_expr \<Rightarrow> Type" where
  "type_v (IndexedTensor_v t vs) = t"
| "type_v (Unary_v t f a) = t"
| "type_v (Binary_v t f a b) = t"

text \<open>
  Modelled from the spec: \<open>IndexExpr::domain()\<close>, the index variables the value ranges
  over, found by scanning the value for \<open>IndexedTensor\<close> occurrences and uniting their
  index-variable lists.
\<close>

fun domain_v :: "value_expr \<Rightarrow> IndexVar list" where
  "domain_v (IndexedTensor_v t vs) = remdups vs"
| "domain_v (Unary_v t f a) = domain_v a"
| "domain_v (Binary_v t f a b) = List.union (domain_v a) (domain_v b)"

text \<open>
  Modelled from the spec: \<open>getIndexExprType\<close>, declared in ir.h with its body in
  ir.cpp, which is not among the sources. The spec: the result is a tensor whose order
  equals \<open>resultVars.size()\<close> and whose per-dimension size is the index set size of the
  corresponding result variable, in order; the component type is the component type of
  \<open>value\<close>.
\<close>

definition getIndexExprType :: "IndexVar list \<Rightarrow> value_expr \<Rightarrow> Type" where
  "getIndexExprType lhsIndexVars expr =
     TensorType (componentType (type_v expr)) (map iv_size lhsIndexVars)"

subsection \<open>The intrinsics registry\<close>

text \<open>
  Modelled from the spec: the initialisation of the static members of \<open>Intrinsics\<close>,
  which ir.h only declares. The spec: a process-wide registry mapping function name to
  its \<open>Func\<close> declaration (kind = Intrinsic), initialised once before first use and
  immutable thereafter, with the names listed below. A declaration has no body. The
  spec gives neither the arguments and results of the declarations nor their
  environment and storage: \<open>sg\<close> supplies the former per name, \<open>de\<close> and \<open>ds\<close> the
  default-constructed \<open>Environment\<close> and \<open>Storage\<close>. Each content is referenced by its
  static member and by the registry's copy of it.
\<close>

definition intrinsic_names :: "string list" where
  "intrinsic_names =
     [''mod'', ''sin'', ''cos'', ''tan'', ''asin'', ''acos'', ''atan2'', ''sqrt'', ''log'',
      ''exp'', ''pow'', ''norm'', ''dot'', ''det'', ''inv'', ''solve'', ''loc'']"

definition intrinsic_decl ::
  "(string \<Rightarrow> Var list \<times> Var list) \<Rightarrow> Environment \<Rightarrow> 'sto \<Rightarrow> string \<Rightarrow> 'sto FuncContent" where
  "intrinsic_decl sg de ds n =
     \<lparr>ref = 2, kind = Kind_to_int Intrinsic, name = n, arguments = fst (sg n),
      results = snd (sg n), env = de, body = undefined_Stmt, storage = ds\<rparr>"

text \<open>The static member for the \<open>i\<close>-th name points to the \<open>i\<close>-th content.\<close>

definition Intrinsics_heap ::
  "(string \<Rightarrow> Var list \<times> Var list) \<Rightarrow> Environment \<Rightarrow> 'sto \<Rightarrow> 'sto func_heap" where
  "Intrinsics_heap sg de ds =
     map_of (zip [0 ..< length intrinsic_names] (map (intrinsic_decl sg de ds) intrinsic_names))"

definition Intrinsics_byName :: "string \<rightharpoonup> 'sto Func" where
  "Intrinsics_byName =
     map_of (zip intrinsic_names
               (map (\<lambda>i. IntrusivePtr (Some i)) [0 ..< length intrinsic_names]))"

text \<open>
  \<open>byName[key]\<close> on a \<open>std::map\<close>: the value stored under the key; a key that is
  absent is first inserted with a default-constructed (undefined) \<open>Func\<close>.
\<close>

definition byName_lookup ::
  "(string \<rightharpoonup> 'sto Func) \<Rightarrow> string \<Rightarrow> 'sto Func \<times> (string \<rightharpoonup> 'sto Func)" where
  "byName_lookup m key =
     (case m key of
        Some f \<Rightarrow> (f, m)
      | None \<Rightarrow> (IntrusivePtr None, m(key \<mapsto> IntrusivePtr None)))"

section \<open>Example states\<close>

text \<open>A \<open>Literal\<close> of order 2 as \<open>new\<close> leaves it (\<open>ref = 0\<close>), with no handle members.\<close>

definition fresh_node :: IRNode where
  "fresh_node = \<lparr>ref = 0, variant = ExprNodeBase (TensorType Float_c [3, 4]) Literal,
                  members = []\<rparr>"

text \<open>
  A \<open>Neg\<close> expression at address 0, as \<open>new\<close> leaves it, whose member \<open>a\<close> references
  the \<open>VarExpr\<close> at address 1; no other handle is alive.
\<close>

definition neg_node :: IRNode where
  "neg_node = \<lparr>ref = 0, variant = ExprNodeBase (TensorType Float_c []) Neg,
                members = [Some 1]\<rparr>"

definition var_node :: IRNode where
  "var_node = \<lparr>ref = 1, variant = ExprNodeBase (TensorType Float_c []) VarExpr,
                members = []\<rparr>"

definition nested_world :: "IRNode world" where
  "nested_world = \<lparr>nodes = empty_heap(0 \<mapsto> neg_node, 1 \<mapsto> var_node), handles = []\<rparr>"

text \<open>An \<open>Add\<close> expression at address 0 and a \<open>Pass\<close> statement at address 1.\<close>

definition example_heap :: heap where
  "example_heap =
     empty_heap(0 \<mapsto> \<lparr>ref = 1, variant = ExprNodeBase (TensorType Float_c []) Add,
                       members = [None, None]\<rparr>,
                1 \<mapsto> \<lparr>ref = 1, variant = StmtNodeBase Pass, members = []\<rparr>)"

text \<open>A default-constructed \<open>Var\<close> and \<open>Environment\<close>, and a heap with one function.\<close>

definition default_Var :: Var where
  "default_Var = \<lparr>var_name = [], var_type = TensorType Int_c []\<rparr>"

definition example_env :: Environment where
  "example_env = \<lparr>globals = Map.empty\<rparr>"

definition example_funcs :: "nat func_heap" where
  "example_funcs =
     Map.empty(0 \<mapsto> \<lparr>ref = 1, kind = 0, name = ''f'', arguments = [default_Var],
                      results = [default_Var], env = example_env, body = undefined_Stmt,
                      storage = 0\<rparr>)"

definition example_Func :: "nat Func" where
  "example_Func = IntrusivePtr (Some 0)"

definition example_signature :: "string \<Rightarrow> Var list \<times> Var list" where
  "example_signature n = ([default_Var], [default_Var])"

text \<open>A heap whose only node is a tensor of order 2.\<close>

definition example_tensor_heap :: heap where
  "example_tensor_heap = empty_heap(0 \<mapsto> fresh_node)"

text \<open>
  The index variables \<open>i\<close>, \<open>j\<close>, \<open>k\<close> over index sets of sizes 3, 4 and 5, and the
  product of \<open>B(i,k)\<close> and \<open>C(k,j)\<close> written in both orders.
\<close>

definition iv_i :: IndexVar where "iv_i = \<lparr>iv_name = ''i'', iv_size = 3\<rparr>"
definition iv_j :: IndexVar where "iv_j = \<lparr>iv_name = ''j'', iv_size = 4\<rparr>"
definition iv_k :: IndexVar where "iv_k = \<lparr>iv_name = ''k'', iv_size = 5\<rparr>"

definition example_value :: value_expr where
  "example_value =
     Binary_v (TensorType Float_c []) Mul_op
       (IndexedTensor_v (TensorType Float_c [3, 5]) [iv_i, iv_k])
       (IndexedTensor_v (TensorType Float_c [5, 4]) [iv_k, iv_j])"

definition example_value_swapped :: value_expr where
  "example_value_swapped =
     Binary_v (TensorType Float_c []) Mul_op
       (IndexedTensor_v (TensorType Float_c [5, 4]) [iv_k, iv_j])
       (IndexedTensor_v (TensorType Float_c [3, 5]) [iv_i, iv_k])"

section \<open>Properties\<close>

subsection \<open>Downcasts\<close>

lemma derives_from_concrete:
  "concrete J \<Longrightarrow> derives_from (Expr_c K) J = (J = Expr_c K)"
  "concrete J \<Longrightarrow> derives_from (Stmt_c K') J = (J = Stmt_c K')"
  by (cases J; auto simp: concrete_def derives_from_def)+

text \<open>
  Claim C3. A defined expression or statement handle whose node has the concrete class
  \<open>K\<close>: \<open>isa<K>\<close> is true and \<open>to<K>\<close> returns the pointer the handle holds, the
  address of that same node; for every other concrete class \<open>J\<close>, \<open>isa<J>\<close> is false
  and \<open>to<J>\<close> fails the invariant check.
\<close>

theorem downcast_sound:
  "(ptr e = Some a \<and> h a = Some n \<and> variant n = ExprNodeBase t K \<longrightarrow>
      isa_Expr (Expr_c K) h e = Inr True
    \<and> to_Expr (Expr_c K) h e = Inr (Some a)
    \<and> (\<forall>J. concrete J \<and> J \<noteq> Expr_c K \<longrightarrow>
          isa_Expr J h e = Inr False \<and> to_Expr J h e = Inl IAssertFailure))
 \<and> (ptr s = Some a' \<and> h a' = Some n' \<and> variant n' = StmtNodeBase K' \<longrightarrow>
      isa_Stmt (Stmt_c K') h s = Inr True
    \<and> to_Stmt (Stmt_c K') h s = Inr (Some a')
    \<and> (\<forall>J. concrete J \<and> J \<noteq> Stmt_c K' \<longrightarrow>
          isa_Stmt J h s = Inr False \<and> to_Stmt J h s = Inl IAssertFailure))"
  by (auto simp: isa_Expr_def to_Expr_def isa_Stmt_def to_Stmt_def defined_def dynamic_cast_def
      derives_from_concrete concrete_def)

theorem downcast_sound_witness:
  "isa_Expr (Expr_c Add) example_heap (IntrusivePtr (Some 0)) = Inr True
 \<and> to_Expr (Expr_c Add) example_heap (IntrusivePtr (Some 0)) = Inr (Some 0)
 \<and> isa_Expr (Expr_c Sub) example_heap (IntrusivePtr (Some 0)) = Inr False
 \<and> to_Expr (Stmt_c Pass) example_heap (IntrusivePtr (Some 0)) = Inl IAssertFailure
 \<and> isa_Stmt (Stmt_c Pass) example_heap (IntrusivePtr (Some 1)) = Inr True
 \<and> to_Stmt (Stmt_c Pass) example_heap (IntrusivePtr (Some 1)) = Inr (Some 1)
 \<and> isa_Stmt (Stmt_c Block) example_heap (IntrusivePtr (Some 1)) = Inr False
 \<and> to_Stmt (Expr_c Add) example_heap (IntrusivePtr (Some 1)) = Inl IAssertFailure"
  using downcast_sound [where e = "IntrusivePtr (Some 0)" and a = 0 and h = example_heap
      and n = "\<lparr>ref = 1, variant = ExprNodeBase (TensorType Float_c []) Add,
                       members = [None, None]\<rparr>"
      and t = "TensorType Float_c []" and K = Add
      and s = "IntrusivePtr (Some 1)" and a' = 1
      and n' = "\<lparr>ref = 1, variant = StmtNodeBase Pass, members = []\<rparr>" and K' = Pass]
  by (simp add: example_heap_def empty_heap_def concrete_def)

text \<open>
  Claim C10. On an undefined expression or statement handle, \<open>isa<K>\<close> returns false
  for every class \<open>K\<close> and every heap: it returns normally, with neither a null
  dereference nor an invariant failure.
\<close>

theorem isa_undefined_false:
  "isa_Expr E h undefined_Expr = Inr False \<and> isa_Stmt S h undefined_Stmt = Inr False"
  by (simp add: isa_Expr_def isa_Stmt_def defined_def undefined_Expr_def undefined_Stmt_def)

subsection \<open>The type query\<close>

text \<open>
  Claim C6, as stated: \<open>Expr::type()\<close> on an undefined handle fails the invariant
  check. It does not: the outcome on the undefined handle is not the invariant failure.
\<close>

theorem Expr_type_undefined_counterexample:
  "Expr_type empty_heap undefined_Expr \<noteq> Inl IAssertFailure"
  by (simp add: Expr_type_def undefined_Expr_def)

text \<open>
  Claim C6, amended. \<open>Expr::type()\<close> checks nothing: on an undefined handle it
  dereferences the null pointer, which is undefined behaviour, and on no handle at all
  does it end in the invariant failure.
\<close>

theorem Expr_type_unchecked:
  "Expr_type h undefined_Expr = Inl UndefinedBehaviour \<and> Expr_type h e \<noteq> Inl IAssertFailure"
  by (simp add: Expr_type_def undefined_Expr_def split: option.split node_variant.split)

subsection \<open>Reference counts\<close>

lemma sint_succ:
  fixes w :: "64 word"
  assumes "sint w \<noteq> 2 ^ 63 - 1"
  shows "sint (w + 1) = sint w + 1"
proof -
  have "sint w < 2 ^ 63" using sint_lt [of w] by simp
  moreover have "- (2 ^ 63) \<le> sint w" using sint_ge [of w] by simp
  ultimately have "signed_take_bit 63 (sint w + 1) = sint w + 1"
    using assms by (intro signed_take_bit_int_eq_self) auto
  then show ?thesis by (simp add: sint_word_ariths)
qed


lemma sint_pred:
  fixes w :: "64 word"
  assumes "sint w \<noteq> - (2 ^ 63)"
  shows "sint (w - 1) = sint w - 1"
proof -
  have "sint w < 2 ^ 63" using sint_lt [of w] by simp
  moreover have "- (2 ^ 63) \<le> sint w" using sint_ge [of w] by simp
  ultimately have "signed_take_bit 63 (sint w - 1) = sint w - 1"
    using assms by (intro signed_take_bit_int_eq_self) auto
  then show ?thesis by (simp add: sint_word_ariths)
qed


lemma pred_zero_iff:
  fixes w :: "64 word"
  assumes "sint w = int t" and "0 < t"
  shows "(w - 1 = 0) = (t = 1)"
proof -
  from assms have "sint w \<noteq> - (2 ^ 63)" by simp
  then have d: "sint (w - 1) = int t - 1" using assms(1) by (simp add: sint_pred)
  have "(sint (w - 1) = 0) = (w - 1 = 0)" by (rule signed_eq_0_iff)
  then have "(w - 1 = 0) = (int t - 1 = 0)" by (simp only: d)
  then show ?thesis by (simp only: of_nat_eq_1_iff right_minus_eq)
qed


lemma count_list_remove_nth:
  assumes "i < length xs"
  shows "count_list xs y = count_list (take i xs @ drop (Suc i) xs) y + (if xs ! i = y then 1 else 0)"
proof -
  have "xs = take i xs @ xs ! i # drop (Suc i) xs"
    using assms by (rule id_take_nth_drop)
  then have "count_list xs y = count_list (take i xs @ xs ! i # drop (Suc i) xs) y"
    by simp
  then show ?thesis by simp
qed


lemma release_all_Nil: "release_all mem h [] = Some (Inr h)"
  by (rule trans [OF release_all.simps]) (simp only: list.case option.case)


lemma release_all_None: "release_all mem h (None # qs) = release_all mem h qs"
  by (rule trans [OF release_all.simps]) (simp only: list.case option.case)


lemma release_all_Some:
  "release_all mem h (Some a # qs) =
     (case h a of
        None \<Rightarrow> Some (Inl UndefinedBehaviour)
      | Some n \<Rightarrow>
          if sint (ref n) = - (2 ^ 63) then Some (Inl UndefinedBehaviour)
          else if ref n - 1 = 0 then release_all mem (h(a := None)) (mem n @ qs)
          else release_all mem (h(a \<mapsto> n\<lparr>ref := ref n - 1\<rparr>)) qs)"
  by (rule trans [OF release_all.simps]) (simp only: list.case option.case)


lemma member_refs_upd:
  assumes "h a = Some n" and "mem n' = mem n"
  shows "member_refs mem (h(a \<mapsto> n')) c = member_refs mem h c"
proof -
  from assms(1) have d: "dom (h(a \<mapsto> n')) = dom h" by auto
  show ?thesis
    unfolding member_refs_def d
    by (rule sum.cong) (use assms in auto)
qed


lemma member_refs_del:
  assumes "finite (dom h)" and "h a = Some n"
  shows "member_refs mem h c = member_refs mem (h(a := None)) c + count_list (mem n) (Some c)"
proof -
  let ?f = "\<lambda>b. count_list (mem (the (h b))) (Some c)"
  let ?g = "\<lambda>b. count_list (mem (the ((h(a := None)) b))) (Some c)"
  from assms(2) have a: "a \<in> dom h" by auto
  have d: "dom (h(a := None)) = dom h - {a}" by auto
  have 1: "sum ?f (dom h) = ?f a + sum ?f (dom h - {a})"
    using assms(1) a by (rule sum.remove)
  have 2: "sum ?f (dom h - {a}) = sum ?g (dom h - {a})"
    by (rule sum.cong) simp_all
  have 3: "?f a = count_list (mem n) (Some c)"
    using assms(2) by simp
  have "member_refs mem h c = sum ?f (dom h)" by (simp only: member_refs_def)
  also have "\<dots> = count_list (mem n) (Some c) + sum ?g (dom h - {a})"
    by (simp only: 1 2 3)
  also have "\<dots> = member_refs mem (h(a := None)) c + count_list (mem n) (Some c)"
    by (simp only: member_refs_def d add.commute)
  finally show ?thesis .
qed

lemma settles_refl: "settles h h"
  by (auto simp: settles_def)


lemma settles_trans:
  assumes "settles h h1" and "settles h1 h2"
  shows "settles h h2"
  unfolding settles_def
proof (intro conjI allI impI)
  fix b assume "h b = None"
  with assms show "h2 b = None" by (auto simp: settles_def)
next
  fix b n2 assume "h2 b = Some n2"
  with assms(2) obtain n1 where n1: "h1 b = Some n1" "refcounted.more n2 = refcounted.more n1"
    "n2 = n1 \<or> (0 < sint (ref n2) \<and> sint (ref n2) < sint (ref n1))"
    unfolding settles_def by blast
  from assms(1) n1(1) obtain n where n: "h b = Some n" "refcounted.more n1 = refcounted.more n"
    "n1 = n \<or> (0 < sint (ref n1) \<and> sint (ref n1) < sint (ref n))"
    unfolding settles_def by blast
  from n1 n show "\<exists>n. h b = Some n \<and> refcounted.more n2 = refcounted.more n
      \<and> (n2 = n \<or> (0 < sint (ref n2) \<and> sint (ref n2) < sint (ref n)))"
    by auto
next
  fix b n assume bn: "h b = Some n \<and> h2 b = None"
  show "0 < sint (ref n)"
  proof (cases "h1 b")
    case None
    with assms(1) bn show ?thesis unfolding settles_def by blast
  next
    case (Some n1)
    with assms(2) bn have p: "0 < sint (ref n1)" unfolding settles_def by blast
    from assms(1) Some obtain m where "h b = Some m"
      "n1 = m \<or> (0 < sint (ref n1) \<and> sint (ref n1) < sint (ref m))"
      unfolding settles_def by blast
    with bn p show ?thesis by auto
  qed
qed


lemma settles_dec:
  assumes "h a = Some n" and "0 < sint (ref n - 1)" and "sint (ref n - 1) < sint (ref n)"
  shows "settles h (h(a \<mapsto> n\<lparr>ref := ref n - 1\<rparr>))"
  using assms by (auto simp: settles_def)


lemma settles_del:
  assumes "h a = Some n" and "0 < sint (ref n)"
  shows "settles h (h(a := None))"
  using assms by (auto simp: settles_def)


lemma balanced_head:
  assumes "balanced mem h (Some a # qs) hs"
  shows "\<exists>n. h a = Some n
          \<and> sint (ref n) = int (Suc (count_list hs (Some a) + count_list qs (Some a)
                                      + member_refs mem h a))"
proof (cases "h a")
  case None
  with assms show ?thesis by (auto simp: balanced_def dest!: spec [of _ a])
next
  case (Some n)
  with assms show ?thesis by (auto simp: balanced_def dest!: spec [of _ a])
qed

lemma balanced_del:
  assumes fin: "finite (dom h)" and bal: "balanced mem h (Some a # qs) hs"
    and n: "h a = Some n" and one: "sint (ref n) = 1"
  shows "balanced mem (h(a := None)) (mem n @ qs) hs"
  unfolding balanced_def
proof
  fix c
  have del: "member_refs mem h c = member_refs mem (h(a := None)) c + count_list (mem n) (Some c)"
    using fin n by (rule member_refs_del)
  show "((h(a := None)) c = None \<longrightarrow>
           count_list hs (Some c) + count_list (mem n @ qs) (Some c)
             + member_refs mem (h(a := None)) c = 0)
      \<and> (\<forall>m. (h(a := None)) c = Some m \<longrightarrow>
           sint (ref m) = int (count_list hs (Some c) + count_list (mem n @ qs) (Some c)
             + member_refs mem (h(a := None)) c))"
  proof (cases "c = a")
    case True
    from balanced_head [OF bal] n one
    have "count_list hs (Some a) + count_list qs (Some a) + member_refs mem h a = 0"
      by simp
    with del True show ?thesis by simp
  next
    case False
    from bal have "(h c = None \<longrightarrow>
           count_list hs (Some c) + count_list (Some a # qs) (Some c) + member_refs mem h c = 0)
      \<and> (\<forall>m. h c = Some m \<longrightarrow>
           sint (ref m) = int (count_list hs (Some c) + count_list (Some a # qs) (Some c)
             + member_refs mem h c))"
      unfolding balanced_def by (rule spec)
    with False del show ?thesis by (simp add: add.assoc add.left_commute)
  qed
qed

lemma balanced_dec:
  assumes indep: "\<And>m r. mem (m\<lparr>ref := r\<rparr>) = mem m"
    and bal: "balanced mem h (Some a # qs) hs" and n: "h a = Some n"
  shows "balanced mem (h(a \<mapsto> n\<lparr>ref := ref n - 1\<rparr>)) qs hs"
  unfolding balanced_def
proof
  fix c
  let ?h1 = "h(a \<mapsto> n\<lparr>ref := ref n - 1\<rparr>)"
  have upd: "member_refs mem ?h1 c = member_refs mem h c"
    using n indep by (rule member_refs_upd)
  show "(?h1 c = None \<longrightarrow>
           count_list hs (Some c) + count_list qs (Some c) + member_refs mem ?h1 c = 0)
      \<and> (\<forall>m. ?h1 c = Some m \<longrightarrow>
           sint (ref m) = int (count_list hs (Some c) + count_list qs (Some c)
             + member_refs mem ?h1 c))"
  proof (cases "c = a")
    case True
    from balanced_head [OF bal] n
    have r: "sint (ref n) = int (Suc (count_list hs (Some a) + count_list qs (Some a)
                                      + member_refs mem h a))"
      by simp
    then have "sint (ref n) \<noteq> - (2 ^ 63)" by simp
    then have "sint (ref n - 1) = sint (ref n) - 1" by (rule sint_pred)
    with r upd True show ?thesis by simp
  next
    case False
    from bal have "(h c = None \<longrightarrow>
           count_list hs (Some c) + count_list (Some a # qs) (Some c) + member_refs mem h c = 0)
      \<and> (\<forall>m. h c = Some m \<longrightarrow>
           sint (ref m) = int (count_list hs (Some c) + count_list (Some a # qs) (Some c)
             + member_refs mem h c))"
      unfolding balanced_def by (rule spec)
    with False upd show ?thesis by simp
  qed
qed

lemma release_all_settles:
  assumes indep: "\<And>m r. mem (m\<lparr>ref := r\<rparr>) = mem m"
  shows "card (dom h) = k \<Longrightarrow> finite (dom h) \<Longrightarrow> balanced mem h ps hs \<Longrightarrow>
     \<exists>h'. release_all mem h ps = Some (Inr h') \<and> finite (dom h')
        \<and> balanced mem h' [] hs \<and> settles h h'"
proof (induction k arbitrary: h ps rule: less_induct)
  case (less k)
  note outer = less.IH
  from less.prems show ?case
  proof (induction ps arbitrary: h)
    case Nil
    then show ?case by (auto simp: release_all_Nil settles_refl)
  next
    case (Cons p qs)
    show ?case
    proof (cases p)
      case None
      from Cons.prems(3) have "balanced mem h qs hs"
        by (simp add: balanced_def None)
      from Cons.IH [OF Cons.prems(1) Cons.prems(2) this]
      show ?thesis by (simp add: None release_all_None)
    next
      case (Some a)
      with Cons.prems(3) have bal: "balanced mem h (Some a # qs) hs" by simp
      from balanced_head [OF bal] obtain n where n: "h a = Some n"
        and r: "sint (ref n) = int (Suc (count_list hs (Some a) + count_list qs (Some a)
                                      + member_refs mem h a))"
        by blast
      from r have pos: "0 < sint (ref n)" by simp
      from r have nomin: "sint (ref n) \<noteq> - (2 ^ 63)" by simp
      then have dec: "sint (ref n - 1) = sint (ref n) - 1" by (rule sint_pred)
      have zero: "(ref n - 1 = 0) = (sint (ref n) = 1)"
      proof -
        have "(sint (ref n - 1) = 0) = (ref n - 1 = 0)" by (rule signed_eq_0_iff)
        then have "(ref n - 1 = 0) = (sint (ref n) - 1 = 0)" by (simp only: dec)
        then show ?thesis by (simp only: right_minus_eq)
      qed
      show ?thesis
      proof (cases "ref n - 1 = 0")
        case True
        let ?h1 = "h(a := None)"
        from True zero have one: "sint (ref n) = 1" by simp
        have fin: "finite (dom ?h1)" using Cons.prems(2) by simp
        have dd: "dom ?h1 = dom h - {a}" by auto
        have "a \<in> dom h" using n by auto
        with Cons.prems(2) have "card (dom h - {a}) < card (dom h)"
          by (rule card_Diff1_less)
        then have "card (dom ?h1) < card (dom h)" by (simp only: dd)
        with Cons.prems(1) have less: "card (dom ?h1) < k" by simp
        have bal1: "balanced mem ?h1 (mem n @ qs) hs"
          using Cons.prems(2) bal n one by (rule balanced_del)
        from outer [OF less refl fin bal1] obtain h' where h':
          "release_all mem ?h1 (mem n @ qs) = Some (Inr h')" "finite (dom h')"
          "balanced mem h' [] hs" "settles ?h1 h'"
          by blast
        have "settles h ?h1" using n pos by (rule settles_del)
        then have s: "settles h h'" using h'(4) by (rule settles_trans)
        have "release_all mem h (p # qs) = release_all mem ?h1 (mem n @ qs)"
          using n nomin True by (simp add: Some release_all_Some)
        with h' s show ?thesis by simp
      next
        case False
        let ?h1 = "h(a \<mapsto> n\<lparr>ref := ref n - 1\<rparr>)"
        have d: "dom ?h1 = dom h" using n by auto
        have bal1: "balanced mem ?h1 qs hs"
          using indep bal n by (rule balanced_dec)
        have c1: "card (dom ?h1) = k" using Cons.prems(1) by (simp only: d)
        have f1: "finite (dom ?h1)" using Cons.prems(2) by (simp only: d)
        from Cons.IH [OF c1 f1 bal1] obtain h' where h':
          "release_all mem ?h1 qs = Some (Inr h')" "finite (dom h')"
          "balanced mem h' [] hs" "settles ?h1 h'"
          by blast
        from False zero pos dec have "0 < sint (ref n - 1)" "sint (ref n - 1) < sint (ref n)"
          by simp_all
        with n have "settles h ?h1" by (rule settles_dec)
        then have s: "settles h h'" using h'(4) by (rule settles_trans)
        have "release_all mem h (p # qs) = release_all mem ?h1 qs"
          using n nomin False by (simp add: Some release_all_Some)
        with h' s show ?thesis by simp
      qed
    qed
  qed
qed

lemma counted_balanced:
  "counted mem w = (finite (dom (nodes w)) \<and> balanced mem (nodes w) [] (handles w))"
  by (simp add: counted_def balanced_def referencing_def)

lemma attach_counted:
  assumes indep: "\<And>m r. mem (m\<lparr>ref := r\<rparr>) = mem m"
    and c: "counted mem w" and att: "attach w p = Inr w'"
  shows "counted mem w'"
proof (cases p)
  case None
  with att have "w' = w\<lparr>handles := handles w @ [None]\<rparr>"
    by (simp add: attach_def)
  with c show ?thesis
    by (simp add: counted_def referencing_def)
next
  case (Some a)
  with att obtain n where n: "nodes w a = Some n" "sint (ref n) \<noteq> 2 ^ 63 - 1"
    and w': "w' = w\<lparr>nodes := (nodes w)(a \<mapsto> n\<lparr>ref := ref n + 1\<rparr>),
                    handles := handles w @ [Some a]\<rparr>"
    by (auto simp: attach_def aquire_def split: option.splits if_splits)
  have upd: "\<And>b. member_refs mem ((nodes w)(a \<mapsto> n\<lparr>ref := ref n + 1\<rparr>)) b
      = member_refs mem (nodes w) b"
    using n(1) indep by (rule member_refs_upd)
  from c n(1) have "sint (ref n) = int (referencing mem w a)"
    by (simp add: counted_def)
  with n(2) have inc: "sint (ref n + 1) = int (referencing mem w a) + 1"
    by (simp add: sint_succ)
  from n(1) have "dom ((nodes w)(a \<mapsto> n\<lparr>ref := ref n + 1\<rparr>)) = dom (nodes w)" by auto
  with c have fin: "finite (dom (nodes w'))" by (simp add: w' counted_def)
  show ?thesis
    unfolding counted_def
  proof (intro conjI allI)
    show "finite (dom (nodes w'))" by (rule fin)
  next
    fix b
    show "nodes w' b = None \<longrightarrow> referencing mem w' b = 0"
      using c by (simp add: w' counted_def referencing_def upd)
  next
    fix b m
    show "nodes w' b = Some m \<longrightarrow> sint (ref m) = int (referencing mem w' b)"
    proof (cases "b = a")
      case True
      with inc show ?thesis by (auto simp: w' referencing_def upd)
    next
      case False
      with c show ?thesis by (simp add: w' counted_def referencing_def upd)
    qed
  qed
qed

lemma drop_characterised:
  assumes indep: "\<And>m r. mem (m\<lparr>ref := r\<rparr>) = mem m"
    and c: "counted mem w" and i: "i < length (handles w)" and h: "handles w ! i = Some a"
  shows "\<exists>w'. handle_step mem (Drop i) w = Some (Inr w')
          \<and> counted mem w'
          \<and> settles (nodes w) (nodes w')
          \<and> referencing mem w' a = referencing mem w a - 1
          \<and> (nodes w' a = None) = (referencing mem w a = 1)"
proof -
  let ?hs = "take i (handles w) @ drop (Suc i) (handles w)"
  let ?h = "nodes w"
  from c have fin: "finite (dom ?h)" by (simp add: counted_def)
  have cnt: "\<And>b. count_list (handles w) (Some b)
      = count_list ?hs (Some b) + (if a = b then 1 else 0)"
    using count_list_remove_nth [OF i] h by simp
  have bal: "balanced mem ?h [Some a] ?hs"
    using c by (auto simp: counted_def balanced_def referencing_def cnt)
  have t: "referencing mem w a = Suc (count_list ?hs (Some a) + member_refs mem ?h a)"
    by (simp add: referencing_def cnt)
  from balanced_head [OF bal] t obtain n where n: "?h a = Some n"
    and r: "sint (ref n) = int (referencing mem w a)"
    by auto
  from r t have pos: "0 < sint (ref n)" by simp
  from r have nomin: "sint (ref n) \<noteq> - (2 ^ 63)" by simp
  then have dec: "sint (ref n - 1) = sint (ref n) - 1" by (rule sint_pred)
  have zero: "(ref n - 1 = 0) = (sint (ref n) = 1)"
  proof -
    have "(sint (ref n - 1) = 0) = (ref n - 1 = 0)" by (rule signed_eq_0_iff)
    then have "(ref n - 1 = 0) = (sint (ref n) - 1 = 0)" by (simp only: dec)
    then show ?thesis by (simp only: right_minus_eq)
  qed
  have step: "\<And>r. release_all mem ?h [Some a] = Some (Inr r) \<Longrightarrow>
      handle_step mem (Drop i) w = Some (Inr (w\<lparr>nodes := r, handles := ?hs\<rparr>))"
    using i h by (simp add: detach_def release_def)
  show ?thesis
  proof (cases "ref n - 1 = 0")
    case True
    let ?h1 = "?h(a := None)"
    from True zero have one: "sint (ref n) = 1" by simp
    with r have t1: "referencing mem w a = 1" by simp
    have bal1: "balanced mem ?h1 (mem n @ []) ?hs"
      using fin bal n one by (rule balanced_del)
    have fin1: "finite (dom ?h1)" using fin by simp
    from release_all_settles [OF indep refl fin1 bal1] obtain h' where h':
      "release_all mem ?h1 (mem n @ []) = Some (Inr h')" "finite (dom h')"
      "balanced mem h' [] ?hs" "settles ?h1 h'"
      by blast
    let ?w' = "w\<lparr>nodes := h', handles := ?hs\<rparr>"
    have "release_all mem ?h [Some a] = release_all mem ?h1 (mem n @ [])"
      using n nomin True by (simp add: release_all_Some)
    then have "release_all mem ?h [Some a] = Some (Inr h')"
      using h'(1) by (rule trans)
    then have 1: "handle_step mem (Drop i) w = Some (Inr ?w')"
      by (rule step)
    have 2: "counted mem ?w'" using h'(2) h'(3) by (simp add: counted_balanced)
    have "settles ?h ?h1" using n pos by (rule settles_del)
    then have 3: "settles ?h (nodes ?w')" using h'(4) by (simp add: settles_trans)
    from h'(4) have gone: "nodes ?w' a = None" by (simp add: settles_def)
    with 2 have "referencing mem ?w' a = 0" by (simp add: counted_def)
    with t1 have 4: "referencing mem ?w' a = referencing mem w a - 1" by simp
    from gone t1 have 5: "(nodes ?w' a = None) = (referencing mem w a = 1)" by simp
    from 1 2 3 4 5 show ?thesis by (intro exI [of _ ?w'] conjI)
  next
    case False
    let ?h1 = "?h(a \<mapsto> n\<lparr>ref := ref n - 1\<rparr>)"
    let ?w' = "w\<lparr>nodes := ?h1, handles := ?hs\<rparr>"
    from False zero r have t1: "referencing mem w a \<noteq> 1" by simp
    have bal1: "balanced mem ?h1 [] ?hs"
      using indep bal n by (rule balanced_dec)
    have "dom ?h1 = dom ?h" using n by auto
    with fin have fin1: "finite (dom ?h1)" by simp
    have "release_all mem ?h [Some a] = Some (Inr ?h1)"
      using n nomin False by (simp add: release_all_Some release_all_Nil)
    then have 1: "handle_step mem (Drop i) w = Some (Inr ?w')" by (rule step)
    have 2: "counted mem ?w'" using fin1 bal1 by (simp add: counted_balanced)
    from False zero pos dec have "0 < sint (ref n - 1)" "sint (ref n - 1) < sint (ref n)"
      by simp_all
    with n have 3: "settles ?h (nodes ?w')" by (simp add: settles_dec)
    have "nodes ?w' a = Some (n\<lparr>ref := ref n - 1\<rparr>)" by simp
    with 2 have "sint (ref (n\<lparr>ref := ref n - 1\<rparr>)) = int (referencing mem ?w' a)"
      unfolding counted_def by blast
    then have "sint (ref n - 1) = int (referencing mem ?w' a)" by simp
    with dec r have 4: "referencing mem ?w' a = referencing mem w a - 1" by simp
    from t1 have 5: "(nodes ?w' a = None) = (referencing mem w a = 1)" by simp
    from 1 2 3 4 5 show ?thesis by (intro exI [of _ ?w'] conjI)
  qed
qed

lemma handle_step_counted:
  assumes indep: "\<And>m r. mem (m\<lparr>ref := r\<rparr>) = mem m" and c: "counted mem w"
  shows "\<exists>r. handle_step mem x w = Some r \<and> (\<forall>w'. r = Inr w' \<longrightarrow> counted mem w')"
proof (cases x)
  case Fresh
  then show ?thesis using attach_counted [OF indep c] by simp
next
  case (Wrap p)
  then show ?thesis using attach_counted [OF indep c] by simp
next
  case (Copy i)
  then show ?thesis using attach_counted [OF indep c] by simp
next
  case (Drop i)
  show ?thesis
  proof (cases "i < length (handles w)")
    case False
    then show ?thesis by (simp add: Drop detach_def)
  next
    case True
    show ?thesis
    proof (cases "handles w ! i")
      case None
      let ?w' = "w\<lparr>handles := take i (handles w) @ drop (Suc i) (handles w)\<rparr>"
      have "\<And>b. count_list (take i (handles w) @ drop (Suc i) (handles w)) (Some b)
          = count_list (handles w) (Some b)"
        using count_list_remove_nth [OF True] None by simp
      with c have "counted mem ?w'" by (simp add: counted_def referencing_def)
      with True None show ?thesis by (simp add: Drop detach_def)
    next
      case (Some a)
      from drop_characterised [OF indep c True Some] show ?thesis
        by (auto simp: Drop)
    qed
  qed
qed

lemma handle_run_counted:
  assumes indep: "\<And>m r. mem (m\<lparr>ref := r\<rparr>) = mem m"
  shows "counted mem w \<Longrightarrow>
    \<exists>r. handle_run mem xs w = Some r \<and> (\<forall>w'. r = Inr w' \<longrightarrow> counted mem w')"
proof (induction xs arbitrary: w)
  case Nil
  then show ?case by simp
next
  case (Cons x xs)
  from handle_step_counted [OF indep Cons.prems, of x] obtain r where
    r: "handle_step mem x w = Some r" "\<forall>w'. r = Inr w' \<longrightarrow> counted mem w'"
    by blast
  show ?case
  proof (cases r)
    case (Inl f)
    with r(1) show ?thesis by simp
  next
    case (Inr w1)
    with r(2) have "counted mem w1" by simp
    from Cons.IH [OF this] r(1) Inr show ?thesis by simp
  qed
qed

lemma copy_adds_reference:
  assumes indep: "\<And>m r. mem (m\<lparr>ref := r\<rparr>) = mem m"
    and c: "counted mem w" and i: "i < length (handles w)" and h: "handles w ! i = Some a"
    and b: "int (referencing mem w a) < 2 ^ 63 - 1"
  shows "\<exists>w'. handle_step mem (Copy i) w = Some (Inr w')
          \<and> referencing mem w' a = referencing mem w a + 1
          \<and> nodes w' a \<noteq> None
          \<and> (\<forall>b. b \<noteq> a \<longrightarrow> nodes w' b = nodes w b)"
proof -
  have "0 < referencing mem w a"
    using count_list_remove_nth [OF i, of "Some a"] h by (simp add: referencing_def)
  with c obtain n where n: "nodes w a = Some n" "sint (ref n) = int (referencing mem w a)"
    by (cases "nodes w a") (auto simp: counted_def)
  from n(2) b have "sint (ref n) \<noteq> 2 ^ 63 - 1" by simp
  with i h n(1) have s: "handle_step mem (Copy i) w =
      Some (Inr (w\<lparr>nodes := (nodes w)(a \<mapsto> n\<lparr>ref := ref n + 1\<rparr>),
                   handles := handles w @ [Some a]\<rparr>))"
    by (simp add: attach_def aquire_def)
  have "member_refs mem ((nodes w)(a \<mapsto> n\<lparr>ref := ref n + 1\<rparr>)) a = member_refs mem (nodes w) a"
    using n(1) indep by (rule member_refs_upd)
  with s show ?thesis by (auto simp: referencing_def)
qed

lemma settles_destroyed_iff:
  assumes c: "counted mem w" and c': "counted mem w'"
    and s: "settles (nodes w) (nodes w')" and b: "nodes w b \<noteq> None"
  shows "(nodes w' b = None) = (0 < referencing mem w b \<and> referencing mem w' b = 0)"
proof -
  from b obtain n where n: "nodes w b = Some n" by auto
  with c have r: "sint (ref n) = int (referencing mem w b)" by (simp add: counted_def)
  show ?thesis
  proof (cases "nodes w' b")
    case None
    with s n have "0 < sint (ref n)" unfolding settles_def by blast
    with r have "0 < referencing mem w b" by simp
    moreover from c' None have "referencing mem w' b = 0" by (simp add: counted_def)
    ultimately show ?thesis using None by simp
  next
    case (Some n')
    with c' have r': "sint (ref n') = int (referencing mem w' b)" by (simp add: counted_def)
    from s Some obtain m where "nodes w b = Some m"
      "n' = m \<or> (0 < sint (ref n') \<and> sint (ref n') < sint (ref m))"
      unfolding settles_def by blast
    with n have "n' = n \<or> 0 < sint (ref n')" by auto
    with r r' have "\<not> (0 < referencing mem w b \<and> referencing mem w' b = 0)" by auto
    with Some show ?thesis by simp
  qed
qed

lemma nested_world_counted: "counted members nested_world"
  by (auto simp: counted_def nested_world_def referencing_def member_refs_def empty_heap_def
      neg_node_def var_node_def)

lemma nested_world_run:
  "(case handle_run members [Wrap (Some 0), Wrap (Some 1), Drop 0] nested_world of
      Some (Inr w') \<Rightarrow>
        handles w' = [Some 1] \<and> nodes w' 0 = None \<and> nodes w' 1 = Some var_node
        \<and> (case handle_step members (Drop 0) w' of
              Some (Inr w'') \<Rightarrow> handles w'' = [] \<and> nodes w'' 1 = None
            | _ \<Rightarrow> False)
    | _ \<Rightarrow> False)"
  by (simp add: nested_world_def empty_heap_def neg_node_def var_node_def attach_def
      aquire_def detach_def release_def release_all_Some release_all_Nil)

text \<open>
  Claim C4. Let the handle members of an object not depend on its counter, and start
  from a state in which every object counts the handles that reference it, the handle
  members of live objects included. Then every sequence of handle constructions,
  copies and destructions returns, and when it runs to its end: each live object's
  \<open>ref\<close> equals the number of handles referencing it; an object referenced by at
  least one handle is alive; copying a live handle finds its object alive and adds one
  reference (short of \<open>2 ^ 63 - 1\<close> of them); and destroying a live handle returns,
  keeps the counts right, takes one reference from the object it referenced and
  destroys that object exactly when the handle was the last one referencing it. In
  that step any object is destroyed exactly when its count of referencing handles
  was positive and has reached zero, which happens to the members of a destroyed
  object in turn; an object that stays keeps everything but its count, and no object
  appears.
\<close>

theorem refcount_tracks_handles:
  assumes "\<forall>m r. mem (m\<lparr>ref := r\<rparr>) = mem m" and "counted mem w"
  shows "handle_run mem ops w \<noteq> None
       \<and> (\<forall>w'. handle_run mem ops w = Some (Inr w') \<longrightarrow>
           (\<forall>a n. nodes w' a = Some n \<longrightarrow> sint (ref n) = int (referencing mem w' a))
         \<and> (\<forall>a. 0 < referencing mem w' a \<longrightarrow> nodes w' a \<noteq> None)
         \<and> (\<forall>i a. i < length (handles w') \<and> handles w' ! i = Some a
                 \<and> int (referencing mem w' a) < 2 ^ 63 - 1 \<longrightarrow>
               (\<exists>w''. handle_step mem (Copy i) w' = Some (Inr w'')
                  \<and> referencing mem w'' a = referencing mem w' a + 1
                  \<and> nodes w'' a \<noteq> None
                  \<and> (\<forall>b. b \<noteq> a \<longrightarrow> nodes w'' b = nodes w' b)))
         \<and> (\<forall>i a. i < length (handles w') \<and> handles w' ! i = Some a \<longrightarrow>
               (\<exists>w''. handle_step mem (Drop i) w' = Some (Inr w'')
                  \<and> (\<forall>b n. nodes w'' b = Some n \<longrightarrow>
                        sint (ref n) = int (referencing mem w'' b))
                  \<and> referencing mem w'' a = referencing mem w' a - 1
                  \<and> (nodes w'' a = None) = (referencing mem w' a = 1)
                  \<and> (\<forall>b. nodes w' b \<noteq> None \<longrightarrow>
                        (nodes w'' b = None)
                          = (0 < referencing mem w' b \<and> referencing mem w'' b = 0))
                  \<and> (\<forall>b n'. nodes w'' b = Some n' \<longrightarrow>
                        (\<exists>n. nodes w' b = Some n
                           \<and> refcounted.more n' = refcounted.more n))
                  \<and> (\<forall>b. nodes w' b = None \<longrightarrow> nodes w'' b = None))))"
proof (intro conjI allI impI)
  from assms(1) have indep: "\<And>m r. mem (m\<lparr>ref := r\<rparr>) = mem m" by simp
  from handle_run_counted [OF indep assms(2), of ops]
  show "handle_run mem ops w \<noteq> None" by auto
next
  fix w' a n
  assume run: "handle_run mem ops w = Some (Inr w')" and "nodes w' a = Some n"
  from assms(1) have indep: "\<And>m r. mem (m\<lparr>ref := r\<rparr>) = mem m" by simp
  from handle_run_counted [OF indep assms(2), of ops] run have "counted mem w'" by auto
  with \<open>nodes w' a = Some n\<close> show "sint (ref n) = int (referencing mem w' a)"
    by (simp add: counted_def)
next
  fix w' a
  assume run: "handle_run mem ops w = Some (Inr w')" and "0 < referencing mem w' a"
  from assms(1) have indep: "\<And>m r. mem (m\<lparr>ref := r\<rparr>) = mem m" by simp
  from handle_run_counted [OF indep assms(2), of ops] run have "counted mem w'" by auto
  with \<open>0 < referencing mem w' a\<close> show "nodes w' a \<noteq> None"
    by (auto simp: counted_def)
next
  fix w' i a
  assume run: "handle_run mem ops w = Some (Inr w')"
    and ia: "i < length (handles w') \<and> handles w' ! i = Some a
                 \<and> int (referencing mem w' a) < 2 ^ 63 - 1"
  from assms(1) have indep: "\<And>m r. mem (m\<lparr>ref := r\<rparr>) = mem m" by simp
  from handle_run_counted [OF indep assms(2), of ops] run have c: "counted mem w'" by auto
  from ia have 1: "i < length (handles w')" and 2: "handles w' ! i = Some a"
    and 3: "int (referencing mem w' a) < 2 ^ 63 - 1" by simp_all
  show "\<exists>w''. handle_step mem (Copy i) w' = Some (Inr w'')
                  \<and> referencing mem w'' a = referencing mem w' a + 1
                  \<and> nodes w'' a \<noteq> None
                  \<and> (\<forall>b. b \<noteq> a \<longrightarrow> nodes w'' b = nodes w' b)"
    using indep c 1 2 3 by (rule copy_adds_reference)
next
  fix w' i a
  assume run: "handle_run mem ops w = Some (Inr w')"
    and ia: "i < length (handles w') \<and> handles w' ! i = Some a"
  from assms(1) have indep: "\<And>m r. mem (m\<lparr>ref := r\<rparr>) = mem m" by simp
  from handle_run_counted [OF indep assms(2), of ops] run have c: "counted mem w'" by auto
  from ia have 1: "i < length (handles w')" and 2: "handles w' ! i = Some a" by simp_all
  from drop_characterised [OF indep c 1 2] obtain w'' where w'':
    "handle_step mem (Drop i) w' = Some (Inr w'')" "counted mem w''"
    "settles (nodes w') (nodes w'')"
    "referencing mem w'' a = referencing mem w' a - 1"
    "(nodes w'' a = None) = (referencing mem w' a = 1)"
    by (elim exE conjE) (rule that)
  have 4: "\<forall>b n. nodes w'' b = Some n \<longrightarrow> sint (ref n) = int (referencing mem w'' b)"
    using w''(2) by (simp add: counted_def)
  have 5: "\<forall>b. nodes w' b \<noteq> None \<longrightarrow>
      (nodes w'' b = None) = (0 < referencing mem w' b \<and> referencing mem w'' b = 0)"
    using settles_destroyed_iff [OF c w''(2) w''(3)] by blast
  have 6: "\<forall>b n'. nodes w'' b = Some n' \<longrightarrow>
      (\<exists>n. nodes w' b = Some n \<and> refcounted.more n' = refcounted.more n)"
    using w''(3) unfolding settles_def by blast
  have 7: "\<forall>b. nodes w' b = None \<longrightarrow> nodes w'' b = None"
    using w''(3) unfolding settles_def by blast
  from w''(1) 4 w''(4) w''(5) 5 6 7
  show "\<exists>w''. handle_step mem (Drop i) w' = Some (Inr w'')
                  \<and> (\<forall>b n. nodes w'' b = Some n \<longrightarrow>
                        sint (ref n) = int (referencing mem w'' b))
                  \<and> referencing mem w'' a = referencing mem w' a - 1
                  \<and> (nodes w'' a = None) = (referencing mem w' a = 1)
                  \<and> (\<forall>b. nodes w' b \<noteq> None \<longrightarrow>
                        (nodes w'' b = None)
                          = (0 < referencing mem w' b \<and> referencing mem w'' b = 0))
                  \<and> (\<forall>b n'. nodes w'' b = Some n' \<longrightarrow>
                        (\<exists>n. nodes w' b = Some n
                           \<and> refcounted.more n' = refcounted.more n))
                  \<and> (\<forall>b. nodes w' b = None \<longrightarrow> nodes w'' b = None)"
    by (intro exI [of _ w''] conjI)
qed

theorem refcount_tracks_handles_witness:
  "(\<forall>m r. members (m\<lparr>ref := r\<rparr> :: IRNode) = members m)
 \<and> counted members nested_world
 \<and> handle_run members [Wrap (Some 0), Wrap (Some 1), Drop 0] nested_world \<noteq> None
 \<and> (case handle_run members [Wrap (Some 0), Wrap (Some 1), Drop 0] nested_world of
        Some (Inr w') \<Rightarrow>
          handles w' = [Some 1] \<and> nodes w' 0 = None \<and> nodes w' 1 = Some var_node
          \<and> sint (ref var_node) = int (referencing members w' 1)
          \<and> (case handle_step members (Drop 0) w' of
                Some (Inr w'') \<Rightarrow> handles w'' = [] \<and> nodes w'' 1 = None
              | _ \<Rightarrow> False)
      | _ \<Rightarrow> False)"
proof -
  have i: "\<forall>m r. members (m\<lparr>ref := r\<rparr> :: IRNode) = members m" by simp
  note th = refcount_tracks_handles [OF i nested_world_counted,
      of "[Wrap (Some 0), Wrap (Some 1), Drop 0]"]
  from nested_world_run obtain w' where
    w': "handle_run members [Wrap (Some 0), Wrap (Some 1), Drop 0] nested_world = Some (Inr w')"
      "handles w' = [Some 1]" "nodes w' 0 = None" "nodes w' 1 = Some var_node"
    and d: "case handle_step members (Drop 0) w' of
                Some (Inr w'') \<Rightarrow> handles w'' = [] \<and> nodes w'' 1 = None
              | _ \<Rightarrow> False"
    by (auto split: option.splits sum.splits)
  from th have n: "handle_run members [Wrap (Some 0), Wrap (Some 1), Drop 0] nested_world \<noteq> None"
    by (rule conjunct1)
  from th have "\<forall>a n. nodes w' a = Some n \<longrightarrow> sint (ref n) = int (referencing members w' a)"
    using w'(1) by (elim conjE allE [of _ w']) simp
  with w'(4) have r: "sint (ref var_node) = int (referencing members w' 1)"
    by blast
  from i nested_world_counted n w' d r show ?thesis by simp
qed

subsection \<open>Func\<close>

lemma same_prototype_refl: "same_prototype fh fh"
  by (simp add: same_prototype_def)

lemma same_prototype_trans:
  "same_prototype fh fh' \<Longrightarrow> same_prototype fh' fh'' \<Longrightarrow> same_prototype fh fh''"
  by (simp add: same_prototype_def)

lemma setEnvironment_frame:
  assumes "setEnvironment fh f e = Inr fh'"
  shows "same_prototype fh fh'" and "getEnvironment fh' f = Inr e"
    and "\<forall>g. getStorage fh' g = getStorage fh g"
  using assms
  by (auto simp: setEnvironment_def same_prototype_def getName_def getArguments_def
      getResults_def getBody_def getKind_def getEnvironment_def getStorage_def deref_def
      split: option.splits if_splits)

lemma setStorage_frame:
  assumes "setStorage fh f s = Inr fh'"
  shows "same_prototype fh fh'" and "getStorage fh' f = Inr s"
    and "\<forall>g. getEnvironment fh' g = getEnvironment fh g"
  using assms
  by (auto simp: setStorage_def same_prototype_def getName_def getArguments_def
      getResults_def getBody_def getKind_def getEnvironment_def getStorage_def deref_def
      split: option.splits if_splits)

lemma func_step_frame:
  assumes "func_step x fh = Inr fh'"
  shows "same_prototype fh fh'"
proof (cases x)
  case (SetEnvironment f e)
  with assms show ?thesis by (simp add: setEnvironment_frame(1))
next
  case (SetStorage f s)
  with assms show ?thesis by (simp add: setStorage_frame(1))
next
  case (WriteEnvironment f u)
  with assms obtain e where "setEnvironment fh f (u e) = Inr fh'"
    by (cases "getEnvironment fh f") simp_all
  then show ?thesis by (rule setEnvironment_frame(1))
next
  case (WriteStorage f u)
  with assms obtain s where "setStorage fh f (u s) = Inr fh'"
    by (cases "getStorage fh f") simp_all
  then show ?thesis by (rule setStorage_frame(1))
qed

lemma func_run_frame: "func_run xs fh = Inr fh' \<Longrightarrow> same_prototype fh fh'"
proof (induction xs arbitrary: fh)
  case Nil
  then show ?case by (simp add: same_prototype_refl)
next
  case (Cons x xs)
  from Cons.prems obtain fh1 where 1: "func_step x fh = Inr fh1" and 2: "func_run xs fh1 = Inr fh'"
    by (cases "func_step x fh") simp_all
  from func_step_frame [OF 1] Cons.IH [OF 2] show ?case
    by (rule same_prototype_trans)
qed

text \<open>
  Claim C8. Every run of the writing operations of \<open>Func\<close> leaves the name, arguments,
  results, body and kind that any \<open>Func\<close> reports as they were. On a defined \<open>Func\<close>,
  \<open>setEnvironment\<close> succeeds, the environment read back is the one set, and the
  storage of every \<open>Func\<close> is unchanged; \<open>setStorage\<close> succeeds, the storage read back
  is the one set, and the environment of every \<open>Func\<close> is unchanged.
\<close>

theorem Func_setters_frame:
  "(\<forall>fh'. func_run ops fh = Inr fh' \<longrightarrow> same_prototype fh fh')
 \<and> (ptr f = Some a \<and> fh a = Some c \<longrightarrow>
      (\<exists>fh'. setEnvironment fh f e = Inr fh' \<and> same_prototype fh fh'
          \<and> getEnvironment fh' f = Inr e \<and> (\<forall>g. getStorage fh' g = getStorage fh g))
    \<and> (\<exists>fh'. setStorage fh f s = Inr fh' \<and> same_prototype fh fh'
          \<and> getStorage fh' f = Inr s \<and> (\<forall>g. getEnvironment fh' g = getEnvironment fh g)))"
proof (intro conjI allI impI)
  fix fh' assume "func_run ops fh = Inr fh'"
  then show "same_prototype fh fh'" by (rule func_run_frame)
next
  assume d: "ptr f = Some a \<and> fh a = Some c"
  then have r: "setEnvironment fh f e = Inr (fh(a \<mapsto> c\<lparr>env := e\<rparr>))"
    by (simp add: setEnvironment_def)
  from r setEnvironment_frame [OF r]
  show "\<exists>fh'. setEnvironment fh f e = Inr fh' \<and> same_prototype fh fh'
          \<and> getEnvironment fh' f = Inr e \<and> (\<forall>g. getStorage fh' g = getStorage fh g)"
    by (intro exI [of _ "fh(a \<mapsto> c\<lparr>env := e\<rparr>)"] conjI)
next
  assume d: "ptr f = Some a \<and> fh a = Some c"
  then have r: "setStorage fh f s = Inr (fh(a \<mapsto> c\<lparr>storage := s\<rparr>))"
    by (simp add: setStorage_def)
  from r setStorage_frame [OF r]
  show "\<exists>fh'. setStorage fh f s = Inr fh' \<and> same_prototype fh fh'
          \<and> getStorage fh' f = Inr s \<and> (\<forall>g. getEnvironment fh' g = getEnvironment fh g)"
    by (intro exI [of _ "fh(a \<mapsto> c\<lparr>storage := s\<rparr>)"] conjI)
qed

theorem Func_setters_frame_witness:
  "(\<exists>fh'. func_run [SetStorage example_Func 5, SetEnvironment example_Func example_env]
            example_funcs = Inr fh'
        \<and> getName fh' example_Func = Inr ''f''
        \<and> getKind fh' example_Func = Inr Internal
        \<and> getBody fh' example_Func = Inr undefined_Stmt
        \<and> getStorage fh' example_Func = Inr 5)
 \<and> (\<exists>fh'. setStorage example_funcs example_Func 7 = Inr fh'
        \<and> getStorage fh' example_Func = Inr 7
        \<and> getArguments fh' example_Func = Inr [default_Var]
        \<and> getEnvironment fh' example_Func = Inr example_env)"
proof -
  let ?c = "\<lparr>ref = 1, kind = 0, name = ''f'', arguments = [default_Var],
                      results = [default_Var], env = example_env, body = undefined_Stmt,
                      storage = 0::nat\<rparr>"
  let ?ops = "[SetStorage example_Func 5, SetEnvironment example_Func example_env]"
  have d: "ptr example_Func = Some 0 \<and> example_funcs 0 = Some ?c"
    by (simp add: example_Func_def example_funcs_def)
  have r: "func_run ?ops example_funcs = Inr (example_funcs(0 \<mapsto> ?c\<lparr>storage := 5\<rparr>))"
    by (simp add: example_Func_def example_funcs_def setStorage_def setEnvironment_def)
  have g: "getName example_funcs example_Func = Inr ''f''"
    "getKind example_funcs example_Func = Inr Internal"
    "getBody example_funcs example_Func = Inr undefined_Stmt"
    "getArguments example_funcs example_Func = Inr [default_Var]"
    "getEnvironment example_funcs example_Func = Inr example_env"
    "getStorage (example_funcs(0 \<mapsto> ?c\<lparr>storage := 5\<rparr>)) example_Func = Inr 5"
    by (simp_all add: getName_def getKind_def getBody_def getArguments_def getEnvironment_def
        getStorage_def deref_def example_Func_def example_funcs_def static_cast_Kind_def)
  from Func_setters_frame [where ops = ?ops and fh = example_funcs and f = example_Func
      and a = 0 and c = ?c and s = 7 and e = example_env] d r g
  show ?thesis
    by (auto simp: same_prototype_def)
qed

subsection \<open>ForDomain\<close>

text \<open>
  Claim C7. The constructor from \<open>(set, var, kind)\<close> fails the invariant check exactly
  when \<open>kind\<close> is \<open>IndexSet\<close>, and otherwise leaves \<open>indexSet\<close> default-constructed;
  the constructor from \<open>(set, var, kind, indexSet)\<close> fails exactly when \<open>kind\<close> is not
  \<open>NeighborsOf\<close>, so for \<open>Edges\<close> in particular; a \<open>ForDomain\<close> built with an
  \<open>indexSet\<close> passed in has kind \<open>IndexSet\<close> or \<open>NeighborsOf\<close>.
\<close>

theorem ForDomain_construction:
  "((ForDomain_of_set di s v k = Inl IAssertFailure) = (k = IndexSet))
 \<and> ((ForDomain_of_set_indexSet s v k ix = Inl IAssertFailure) = (k \<noteq> NeighborsOf))
 \<and> ForDomain_of_set_indexSet s v Edges ix = Inl IAssertFailure
 \<and> (k \<noteq> IndexSet \<longrightarrow>
       ForDomain_of_set di s v k = Inr \<lparr>kind_d = k, indexSet = di, set_d = s, var_d = v\<rparr>)
 \<and> ForDomain_of_set_indexSet s v NeighborsOf ix
       = Inr \<lparr>kind_d = NeighborsOf, indexSet = ix, set_d = s, var_d = v\<rparr>
 \<and> (\<forall>d. (d = ForDomain_of_indexSet dv ix \<or> ForDomain_of_set_indexSet s v k ix = Inr d)
         \<longrightarrow> kind_d d = IndexSet \<or> kind_d d = NeighborsOf)"
  by (auto simp: ForDomain_of_set_def ForDomain_of_set_indexSet_def ForDomain_of_indexSet_def)

theorem ForDomain_construction_witness:
  "ForDomain_of_set (0::nat) undefined_Expr default_Var IndexSet = Inl IAssertFailure
 \<and> ForDomain_of_set (0::nat) undefined_Expr default_Var Edges
       = Inr \<lparr>kind_d = Edges, indexSet = 0, set_d = undefined_Expr, var_d = default_Var\<rparr>
 \<and> ForDomain_of_set_indexSet undefined_Expr default_Var Edges (7::nat) = Inl IAssertFailure
 \<and> kind_d (ForDomain_of_indexSet default_Var (7::nat)) = IndexSet"
  using ForDomain_construction [where di = "0::nat" and s = undefined_Expr and v = default_Var
      and k = Edges and ix = "7::nat" and dv = default_Var]
    ForDomain_construction [where di = "0::nat" and s = undefined_Expr and v = default_Var
      and k = IndexSet and ix = "7::nat" and dv = default_Var]
  by (simp add: ForDomain_of_indexSet_def)

subsection \<open>Tensor reads and writes\<close>

text \<open>
  Claim C2. For a tensor expression of order \<open>k\<close>, \<open>TensorRead::make\<close> and
  \<open>TensorWrite::make\<close> succeed with an index list of size 1 or of size \<open>k\<close>, and fail
  the invariant check with an index list of any other size.
\<close>

theorem tensor_access_arity:
  assumes "Expr_type h t = Inr ty" and "isTensor ty" and "order ty = k"
  shows "((length ixs = 1 \<or> length ixs = k) \<longrightarrow>
            TensorRead_make h t ixs = Inr \<lparr>tensor = t, indices = ixs\<rparr>
          \<and> TensorWrite_make h t ixs v c = Inr \<lparr>tensor = t, indices = ixs, val = v, cop = c\<rparr>)
       \<and> (length ixs \<noteq> 1 \<and> length ixs \<noteq> k \<longrightarrow>
            TensorRead_make h t ixs = Inl IAssertFailure
          \<and> TensorWrite_make h t ixs v c = Inl IAssertFailure)"
  using assms by (simp add: TensorRead_make_def TensorWrite_make_def)

theorem tensor_access_arity_witness:
  "TensorRead_make example_tensor_heap (IntrusivePtr (Some 0)) [undefined_Expr]
     = Inr \<lparr>tensor = IntrusivePtr (Some 0), indices = [undefined_Expr]\<rparr>
 \<and> TensorWrite_make example_tensor_heap (IntrusivePtr (Some 0)) [undefined_Expr, undefined_Expr]
       undefined_Expr CompoundOperator_Add
     = Inr \<lparr>tensor = IntrusivePtr (Some 0), indices = [undefined_Expr, undefined_Expr],
            val = undefined_Expr, cop = CompoundOperator_Add\<rparr>
 \<and> TensorRead_make example_tensor_heap (IntrusivePtr (Some 0)) [] = Inl IAssertFailure
 \<and> TensorWrite_make example_tensor_heap (IntrusivePtr (Some 0))
       [undefined_Expr, undefined_Expr, undefined_Expr] undefined_Expr CompoundOperator_None
     = Inl IAssertFailure"
proof -
  have t: "Expr_type example_tensor_heap (IntrusivePtr (Some 0)) = Inr (TensorType Float_c [3, 4])"
    by (simp add: Expr_type_def example_tensor_heap_def empty_heap_def fresh_node_def)
  have i: "isTensor (TensorType Float_c [3, 4])" by simp
  have k: "order (TensorType Float_c [3, 4]) = 2" by (simp add: order_def)
  note th = tensor_access_arity [OF t i k]
  from th [of "[undefined_Expr]"]
    th [of "[undefined_Expr, undefined_Expr]" undefined_Expr CompoundOperator_Add]
    th [of "[]"]
    th [of "[undefined_Expr, undefined_Expr, undefined_Expr]" undefined_Expr CompoundOperator_None]
  show ?thesis by simp
qed

subsection \<open>The type of an index expression\<close>

text \<open>
  Claim C1. For all result variables and every value, \<open>getIndexExprType\<close> returns a
  tensor type whose order is the number of result variables, whose \<open>i\<close>-th dimension
  is the index-set size of the \<open>i\<close>-th result variable, and whose component type is
  that of the value; the result is the same for every value of that component type,
  whatever index variables the value is built over and in whatever order, so that a
  variable of the value alone gives no dimension.
\<close>

theorem getIndexExprType_shape:
  "isTensor (getIndexExprType resultVars v)
 \<and> order (getIndexExprType resultVars v) = length resultVars
 \<and> (\<forall>i < length resultVars.
        dimensions (getIndexExprType resultVars v) ! i = iv_size (resultVars ! i))
 \<and> componentType (getIndexExprType resultVars v) = componentType (type_v v)
 \<and> (\<forall>v'. componentType (type_v v') = componentType (type_v v) \<longrightarrow>
        getIndexExprType resultVars v' = getIndexExprType resultVars v)"
  by (simp add: getIndexExprType_def order_def)

theorem getIndexExprType_shape_witness:
  "iv_k \<in> set (domain_v example_value) \<and> iv_k \<notin> set [iv_i, iv_j]
 \<and> getIndexExprType [iv_i, iv_j] example_value = TensorType Float_c [3, 4]
 \<and> getIndexExprType [iv_i, iv_j] example_value_swapped = TensorType Float_c [3, 4]
 \<and> order (getIndexExprType [iv_i, iv_j] example_value) = 2
 \<and> dimensions (getIndexExprType [iv_i, iv_j] example_value) ! 0 = 3
 \<and> dimensions (getIndexExprType [iv_i, iv_j] example_value) ! 1 = 4"
proof -
  note th = getIndexExprType_shape [of "[iv_i, iv_j]" example_value]
  have k: "iv_k \<in> set (domain_v example_value)"
    by (simp add: example_value_def)
  have nk: "iv_k \<notin> set [iv_i, iv_j]"
    by (simp add: iv_i_def iv_j_def iv_k_def)
  have t: "getIndexExprType [iv_i, iv_j] example_value = TensorType Float_c [3, 4]"
    by (simp add: getIndexExprType_def example_value_def iv_i_def iv_j_def)
  have c: "componentType (type_v example_value_swapped) = componentType (type_v example_value)"
    by (simp add: example_value_def example_value_swapped_def)
  from th c have s: "getIndexExprType [iv_i, iv_j] example_value_swapped
      = getIndexExprType [iv_i, iv_j] example_value"
    by blast
  from th have o: "order (getIndexExprType [iv_i, iv_j] example_value) = length [iv_i, iv_j]"
    by blast
  from th have n: "\<forall>i < length [iv_i, iv_j].
      dimensions (getIndexExprType [iv_i, iv_j] example_value) ! i = iv_size ([iv_i, iv_j] ! i)"
    by blast
  from n have n0: "dimensions (getIndexExprType [iv_i, iv_j] example_value) ! 0 = 3"
    by (simp add: iv_i_def)
  have "(1::nat) < length [iv_i, iv_j]" by simp
  with n have "dimensions (getIndexExprType [iv_i, iv_j] example_value) ! 1
      = iv_size ([iv_i, iv_j] ! 1)"
    by blast
  then have n1: "dimensions (getIndexExprType [iv_i, iv_j] example_value) ! 1 = 4"
    by (simp add: iv_j_def)
  from k nk t s o n0 n1 show ?thesis by simp
qed

subsection \<open>The intrinsics registry\<close>

lemma intrinsic_names_distinct: "distinct intrinsic_names"
  by (simp add: intrinsic_names_def)

lemma Intrinsics_byName_nth:
  assumes "i < length intrinsic_names"
  shows "Intrinsics_byName (intrinsic_names ! i) = Some (IntrusivePtr (Some i))"
proof -
  let ?ys = "map (\<lambda>i. IntrusivePtr (Some i)) [0 ..< length intrinsic_names]"
  have "map_of (zip intrinsic_names ?ys) (intrinsic_names ! i) = Some (?ys ! i)"
    using assms intrinsic_names_distinct by (intro map_of_zip_nth) simp_all
  with assms show ?thesis by (simp add: Intrinsics_byName_def)
qed

lemma Intrinsics_heap_nth:
  assumes "i < length intrinsic_names"
  shows "Intrinsics_heap sg de ds i = Some (intrinsic_decl sg de ds (intrinsic_names ! i))"
proof -
  let ?xs = "[0 ..< length intrinsic_names]"
  let ?ys = "map (intrinsic_decl sg de ds) intrinsic_names"
  have "map_of (zip ?xs ?ys) (?xs ! i) = Some (?ys ! i)"
    using assms by (intro map_of_zip_nth) simp_all
  with assms show ?thesis by (simp add: Intrinsics_heap_def)
qed

text \<open>
  Claim C9. After initialisation, a lookup of any of the seventeen intrinsic names in
  \<open>Intrinsics::byName\<close> returns a defined \<open>Func\<close> whose kind is \<open>Intrinsic\<close> and whose
  name is the key, leaves the registry as it was, and so returns the same \<open>Func\<close>
  when repeated.
\<close>

theorem Intrinsics_registry:
  fixes ds :: 'sto
  shows "\<forall>n \<in> set intrinsic_names.
     \<exists>f. byName_lookup Intrinsics_byName n = (f, Intrinsics_byName)
       \<and> fst (byName_lookup (snd (byName_lookup Intrinsics_byName n)) n) = f
       \<and> defined f
       \<and> getKind (Intrinsics_heap sg de ds) f = Inr Intrinsic
       \<and> getName (Intrinsics_heap sg de ds) f = Inr n"
proof
  fix n assume "n \<in> set intrinsic_names"
  then obtain i where i: "i < length intrinsic_names" and n: "n = intrinsic_names ! i"
    by (auto simp: in_set_conv_nth)
  let ?f = "IntrusivePtr (Some i) :: 'sto Func"
  have b: "Intrinsics_byName n = Some ?f"
    unfolding n using i by (rule Intrinsics_byName_nth)
  have h: "Intrinsics_heap sg de ds i = Some (intrinsic_decl sg de ds n)"
    unfolding n using i by (rule Intrinsics_heap_nth)
  have "byName_lookup Intrinsics_byName n = (?f, Intrinsics_byName)"
    using b by (simp add: byName_lookup_def)
  moreover have "defined ?f" by (simp add: defined_def)
  moreover have "getKind (Intrinsics_heap sg de ds) ?f = Inr Intrinsic"
    using h by (simp add: getKind_def deref_def intrinsic_decl_def static_cast_Kind_def
        Kind_to_int_def)
  moreover have "getName (Intrinsics_heap sg de ds) ?f = Inr n"
    using h by (simp add: getName_def deref_def intrinsic_decl_def)
  ultimately show "\<exists>f. byName_lookup Intrinsics_byName n = (f, Intrinsics_byName)
       \<and> fst (byName_lookup (snd (byName_lookup Intrinsics_byName n)) n) = f
       \<and> defined f
       \<and> getKind (Intrinsics_heap sg de ds) f = Inr Intrinsic
       \<and> getName (Intrinsics_heap sg de ds) f = Inr n"
    by (intro exI [of _ ?f]) simp
qed

theorem Intrinsics_registry_witness:
  "''sqrt'' \<in> set intrinsic_names
 \<and> (\<exists>f :: nat Func.
        byName_lookup Intrinsics_byName ''sqrt'' = (f, Intrinsics_byName)
      \<and> fst (byName_lookup (snd (byName_lookup Intrinsics_byName ''sqrt'')) ''sqrt'') = f
      \<and> defined f
      \<and> getKind (Intrinsics_heap example_signature example_env 0) f = Inr Intrinsic
      \<and> getName (Intrinsics_heap example_signature example_env 0) f = Inr ''sqrt'')"
proof -
  have m: "''sqrt'' \<in> set intrinsic_names"
    by (simp add: intrinsic_names_def)
  from Intrinsics_registry [of example_signature example_env "0::nat"] m
  show ?thesis by blast
qed

end
